theory Spec2Isabelle
  imports Main
begin

section \<open>The course monitor: data model\<close>

text \<open>
  The monitor (package main: \<^verbatim>\<open>Run\<close> and its helpers) loads a configuration, resolves a
  name for every configured CRN, and then polls the timetable for every course that is
  not yet found, until all are found. Everything outside the process is a parameter of
  the model (record \<open>env\<close>): the file system, the JSON decoder, the process environment,
  the network behind \<^verbatim>\<open>http.PostForm\<close> and the Resend API. Every call that leaves the
  process is written to a log held in the state, and the answer to the k-th call of a
  kind may depend on k, so the outside world may answer differently at every call.

  Presentational output (banner, configuration box, spinner frames) and the pacing
  delays (\<^verbatim>\<open>time.Sleep\<close>, the wait between cycles) change none of the variables
  modelled here and are left out; the printed lines that report an event are kept.
\<close>

datatype error =
    ReadConfigFailed string
  | ParseConfigFailed string
  | NoCRNsSpecified
  | RequestFailed string
  | UnexpectedStatus int string
  | ParseHTMLFailed string
  | CourseNotFound string
  | ApiKeyNotSet
  | ResendError string
  | MockEmailError
  | LoadConfigFailed error
  | NoValidCRNs

record Config =
  CRNs :: "string list"
  Email :: string
  CheckInterval :: int
  Term :: string
  Campus :: string
  BaseURL :: string

record CourseStatus =
  CRN :: string
  Name :: string
  Found :: bool

text \<open>\<^verbatim>\<open>url.Values\<close> is a Go map from keys to lists of values.\<close>

type_synonym url_Values = "string \<rightharpoonup> string list"

text \<open>
  What the scraping code reads of a parsed page: \<open>tableText\<close> is
  \<^verbatim>\<open>doc.Find(".dataentrytable").Text()\<close>; \<open>tableRows\<close> has one pair for every element
  matched by \<^verbatim>\<open>.dataentrytable tr\<close>, in document order: the text of the row's
  \<^verbatim>\<open>td:nth-child(1)\<close> and of its \<^verbatim>\<open>td:nth-child(3)\<close>.
\<close>

record document =
  tableText :: string
  tableRows :: "(string \<times> string) list"

text \<open>
  An HTTP response; \<open>Body\<close> is the outcome of \<^verbatim>\<open>goquery.NewDocumentFromReader\<close> on the
  body (\<open>Inl\<close> its error).
\<close>

record response =
  StatusCode :: int
  Status :: string
  Body :: "string + document"

text \<open>
  The implementations of interface \<^verbatim>\<open>EmailSender\<close>: the production one with its API key,
  and the test double of the test file with its \<^verbatim>\<open>ShouldError\<close> flag (the list
  \<^verbatim>\<open>Sent\<close> it appends to lives in the state). A nil interface value is \<open>None\<close>.
\<close>

datatype EmailSender = ResendEmailSender string | MockEmailSender bool

record RunOptions =
  ConfigPath :: string
  EmailSender :: "EmailSender option"

text \<open>
  The outside world. \<open>network k url payload\<close> answers the k-th call of
  \<^verbatim>\<open>http.PostForm\<close>, \<open>resend_api k key dest subject body\<close> the k-th request to the
  Resend API (\<open>None\<close> is success).
\<close>

record env =
  os_ReadFile :: "string \<Rightarrow> string + string"
  json_Unmarshal :: "string \<Rightarrow> string + Config"
  os_Getenv :: "string \<Rightarrow> string"
  network :: "nat \<Rightarrow> string \<Rightarrow> url_Values \<Rightarrow> string + response"
  resend_api :: "nat \<Rightarrow> string \<Rightarrow> string \<Rightarrow> string \<Rightarrow> string \<Rightarrow> string option"

text \<open>
  The log of the calls \<^verbatim>\<open>Run\<close> makes for its courses, each with what it returned:
  \<open>EvResolve crn r\<close> for \<^verbatim>\<open>cfg.getCourseName(crn)\<close>, \<open>EvCheck i crn r\<close> for
  \<^verbatim>\<open>cfg.checkSectionOpen(courses[i].CRN)\<close> and \<open>EvNotify i dest subject body r\<close> for the
  \<^verbatim>\<open>sendEmail\<close> call made for \<^verbatim>\<open>courses[i]\<close>. The index i is the loop variable at the
  call; the program itself does not store it.
\<close>

datatype event =
    EvResolve string "error + string"
  | EvCheck nat string "error + bool"
  | EvNotify nat string string string "error option"

text \<open>The printed lines that report an event.\<close>

datatype line =
    LineSkipping string
  | LineResolved string string
  | LineChecking int string
  | LineErrorChecking string error
  | LineSeatAvailable string string
  | LineNotificationSent string
  | LineAllFound

text \<open>
  The variables of \<^verbatim>\<open>Run\<close> (\<open>courses\<close>, \<open>remaining\<close>; the latter is assigned when the
  polling loop is entered) and the logs: \<open>posts\<close> the arguments of every
  \<^verbatim>\<open>http.PostForm\<close> call, \<open>mails\<close> the requests to the Resend API, \<open>Sent\<close> the field of
  the test double, \<open>events\<close> and \<open>printed\<close> as above.
\<close>

record state =
  courses :: "CourseStatus list"
  remaining :: int
  posts :: "(string \<times> url_Values) list"
  mails :: "(string \<times> string \<times> string) list"
  Sent :: "(string \<times> string \<times> string) list"
  events :: "event list"
  printed :: "line list"

definition start :: state where
  "start = \<lparr>courses = [], remaining = 0, posts = [], mails = [], Sent = [],
            events = [], printed = []\<rparr>"

definition println :: "line \<Rightarrow> state \<Rightarrow> state" where
  "println l st = st\<lparr>printed := printed st @ [l]\<rparr>"

definition record_event :: "event \<Rightarrow> state \<Rightarrow> state" where
  "record_event e st = st\<lparr>events := events st @ [e]\<rparr>"

section \<open>Strings\<close>

fun strings_HasPrefix :: "string \<Rightarrow> string \<Rightarrow> bool" where
  "strings_HasPrefix s [] = True"
| "strings_HasPrefix [] (p # ps) = False"
| "strings_HasPrefix (c # s) (p # ps) = (c = p \<and> strings_HasPrefix s ps)"

fun strings_Contains :: "string \<Rightarrow> string \<Rightarrow> bool" where
  "strings_Contains [] substr = (substr = [])"
| "strings_Contains (c # s) substr =
     (strings_HasPrefix (c # s) substr \<or> strings_Contains s substr)"

text \<open>
  \<^verbatim>\<open>strings.TrimSpace\<close>, for the ASCII white space (tab, line feed, vertical tab, form
  feed, carriage return, space); the Unicode spaces that Go trims as well are not
  modelled.
\<close>

definition isSpace :: "char \<Rightarrow> bool" where
  "isSpace c = (c \<in> set [CHR 0x09, CHR 0x0A, CHR 0x0B, CHR 0x0C, CHR 0x0D, CHR '' ''])"

definition strings_TrimSpace :: "string \<Rightarrow> string" where
  "strings_TrimSpace s = rev (dropWhile isSpace (rev (dropWhile isSpace s)))"

section \<open>Configuration\<close>

definition DefaultTimetableURL :: string where
  "DefaultTimetableURL = ''https://selfservice.banner.vt.edu/ssb/HZSKVTSC.P_ProcRequest''"

definition loadConfig :: "env \<Rightarrow> string \<Rightarrow> error + Config" where
  "loadConfig E path =
     (case os_ReadFile E path of
        Inl msg \<Rightarrow> Inl (ReadConfigFailed msg)
      | Inr data \<Rightarrow>
          (case json_Unmarshal E data of
             Inl msg \<Rightarrow> Inl (ParseConfigFailed msg)
           | Inr cfg \<Rightarrow>
               (let cfg1 = (if CheckInterval cfg = 0 then cfg\<lparr>CheckInterval := 30\<rparr> else cfg);
                    cfg2 = (if Campus cfg1 = [] then cfg1\<lparr>Campus := ''0''\<rparr> else cfg1);
                    cfg3 = (if Term cfg2 = [] then cfg2\<lparr>Term := ''202601''\<rparr> else cfg2);
                    cfg4 = (if BaseURL cfg3 = [] then cfg3\<lparr>BaseURL := DefaultTimetableURL\<rparr>
                            else cfg3)
                in if length (CRNs cfg4) = 0 then Inl NoCRNsSpecified else Inr cfg4)))"

definition getBaseURL :: "Config \<Rightarrow> string" where
  "getBaseURL c = (if BaseURL c \<noteq> [] then BaseURL c else DefaultTimetableURL)"

definition buildPayload :: "Config \<Rightarrow> string \<Rightarrow> bool \<Rightarrow> url_Values" where
  "buildPayload c crn openOnly =
     (let rawMap = [''CAMPUS'' \<mapsto> [Campus c],
                    ''TERMYEAR'' \<mapsto> [Term c],
                    ''CORE_CODE'' \<mapsto> [''AR%''],
                    ''subj_code'' \<mapsto> [''%''],
                    ''SCHDTYPE'' \<mapsto> [''%''],
                    ''CRSE_NUMBER'' \<mapsto> [''''],
                    ''crn'' \<mapsto> [crn],
                    ''sess_code'' \<mapsto> [''%''],
                    ''BTN_PRESSED'' \<mapsto> [''FIND class sections''],
                    ''inst_name'' \<mapsto> [''''],
                    ''disp_comments_in'' \<mapsto> ['''']]
      in if openOnly then rawMap(''open_only'' \<mapsto> [''on'']) else rawMap)"

section \<open>HTTP and scraping\<close>

text \<open>
  \<^verbatim>\<open>http.PostForm\<close> of Go's standard library. The empty URL parses, but it has no
  scheme, and the client's transport refuses a request whose scheme is neither http nor
  https before anything is sent; what happens to every other URL is up to \<open>network\<close>.
\<close>

definition http_PostForm :: "env \<Rightarrow> nat \<Rightarrow> string \<Rightarrow> url_Values \<Rightarrow> string + response" where
  "http_PostForm E k targetUrl payload =
     (if targetUrl = [] then Inl ''unsupported protocol scheme''
      else network E k targetUrl payload)"

definition fetchDocument ::
  "env \<Rightarrow> string \<Rightarrow> url_Values \<Rightarrow> state \<Rightarrow> (error + document) \<times> state" where
  "fetchDocument E targetUrl payload st =
     (let st1 = st\<lparr>posts := posts st @ [(targetUrl, payload)]\<rparr> in
      case http_PostForm E (length (posts st)) targetUrl payload of
        Inl msg \<Rightarrow> (Inl (RequestFailed msg), st1)
      | Inr resp \<Rightarrow>
          if StatusCode resp \<noteq> 200
          then (Inl (UnexpectedStatus (StatusCode resp) (Status resp)), st1)
          else (case Body resp of
                  Inl msg \<Rightarrow> (Inl (ParseHTMLFailed msg), st1)
                | Inr doc \<Rightarrow> (Inr doc, st1)))"

definition checkSectionOpen ::
  "env \<Rightarrow> Config \<Rightarrow> string \<Rightarrow> state \<Rightarrow> (error + bool) \<times> state" where
  "checkSectionOpen E c crn st =
     (let payload = buildPayload c crn True in
      case fetchDocument E (getBaseURL c) payload st of
        (Inl err, st1) \<Rightarrow> (Inl err, st1)
      | (Inr doc, st1) \<Rightarrow> (Inr (strings_Contains (tableText doc) crn), st1))"

text \<open>
  The callback of \<^verbatim>\<open>Each\<close> assigns \<open>courseName\<close> at every row whose first cell contains
  the CRN, so the last such row decides.
\<close>

definition getCourseName ::
  "env \<Rightarrow> Config \<Rightarrow> string \<Rightarrow> state \<Rightarrow> (error + string) \<times> state" where
  "getCourseName E c crn st =
     (let payload = buildPayload c crn False in
      case fetchDocument E (BaseURL c) payload st of
        (Inl err, st1) \<Rightarrow> (Inl err, st1)
      | (Inr doc, st1) \<Rightarrow>
          (let courseName =
                 foldl (\<lambda>name (td1, td3).
                          if strings_Contains td1 crn then strings_TrimSpace td3 else name)
                       [] (tableRows doc)
           in if courseName = [] then (Inl (CourseNotFound crn), st1)
              else (Inr courseName, st1)))"

section \<open>Notifications\<close>

text \<open>The request of the Resend client (\<^verbatim>\<open>client.Emails.Send\<close>).\<close>

definition resend_Emails_Send ::
  "env \<Rightarrow> string \<Rightarrow> string \<Rightarrow> string \<Rightarrow> string \<Rightarrow> state \<Rightarrow> error option \<times> state" where
  "resend_Emails_Send E apiKey dest subject body st =
     (map_option ResendError (resend_api E (length (mails st)) apiKey dest subject body),
      st\<lparr>mails := mails st @ [(dest, subject, body)]\<rparr>)"

text \<open>The package-level function \<^verbatim>\<open>sendEmail\<close>.\<close>

definition sendEmail ::
  "env \<Rightarrow> string \<Rightarrow> string \<Rightarrow> string \<Rightarrow> state \<Rightarrow> error option \<times> state" where
  "sendEmail E dest subject body st =
     (let apiKey = os_Getenv E ''RESEND_API_KEY'' in
      if apiKey = [] then (Some ApiKeyNotSet, st)
      else resend_Emails_Send E apiKey dest subject body st)"

text \<open>Method \<^verbatim>\<open>Send\<close> of the two implementations of \<^verbatim>\<open>EmailSender\<close>.\<close>

fun Send ::
  "env \<Rightarrow> EmailSender \<Rightarrow> string \<Rightarrow> string \<Rightarrow> string \<Rightarrow> state \<Rightarrow> error option \<times> state" where
  "Send E (ResendEmailSender apiKey) dest subject body st =
     (if apiKey = [] then (Some ApiKeyNotSet, st)
      else resend_Emails_Send E apiKey dest subject body st)"
| "Send E (MockEmailSender shouldError) dest subject body st =
     (if shouldError then (Some MockEmailError, st)
      else (None, st\<lparr>Sent := Sent st @ [(dest, subject, body)]\<rparr>))"

section \<open>Run\<close>

text \<open>
  The first loop of \<^verbatim>\<open>Run\<close>: \<^verbatim>\<open>for _, crn := range cfg.CRNs\<close>. A CRN whose name cannot be
  resolved is reported and skipped; the others are appended to \<open>courses\<close>.
\<close>

fun init_courses :: "env \<Rightarrow> Config \<Rightarrow> string list \<Rightarrow> state \<Rightarrow> state" where
  "init_courses E cfg [] st = st"
| "init_courses E cfg (crn # crns) st =
     (case getCourseName E cfg crn st of
        (Inl err, st1) \<Rightarrow>
          init_courses E cfg crns
            (println (LineSkipping crn) (record_event (EvResolve crn (Inl err)) st1))
      | (Inr name, st1) \<Rightarrow>
          (let st2 = record_event (EvResolve crn (Inr name)) st1;
               st3 = st2\<lparr>courses := courses st2 @ [\<lparr>CRN = crn, Name = name, Found = False\<rparr>]\<rparr>
           in init_courses E cfg crns (println (LineResolved crn name) st3)))"

text \<open>
  The body of \<^verbatim>\<open>for i := range courses\<close>, for an index \<open>i < length (courses st)\<close> (the loop
  produces no other). The value \<^verbatim>\<open>sendEmail\<close> returns is discarded by the program; the
  model keeps it in the event log only.
\<close>

definition poll_step :: "env \<Rightarrow> Config \<Rightarrow> int \<Rightarrow> nat \<Rightarrow> state \<Rightarrow> state" where
  "poll_step E cfg attempt i st =
     (if Found (courses st ! i) then st
      else
        (let crn = CRN (courses st ! i);
             st1 = println (LineChecking attempt crn) st
         in case checkSectionOpen E cfg crn st1 of
              (Inl err, st2) \<Rightarrow>
                println (LineErrorChecking crn err) (record_event (EvCheck i crn (Inl err)) st2)
            | (Inr isOpen, st2) \<Rightarrow>
                (let st3 = record_event (EvCheck i crn (Inr isOpen)) st2 in
                 if isOpen then
                   (let st4 = st3\<lparr>courses := (courses st3)[i := (courses st3 ! i)\<lparr>Found := True\<rparr>],
                                  remaining := remaining st3 - 1\<rparr>;
                        st5 = println (LineSeatAvailable (Name (courses st4 ! i))
                                         (CRN (courses st4 ! i))) st4
                    in if Email cfg \<noteq> [] then
                         (let subject = ''VT Course Section Open!'';
                              body = ''OPEN SEAT: '' @ Name (courses st5 ! i) @ '' (CRN: '' @
                                     CRN (courses st5 ! i) @ '')'';
                              (r, st6) = sendEmail E (Email cfg) subject body st5
                          in println (LineNotificationSent (Email cfg))
                               (record_event (EvNotify i (Email cfg) subject body r) st6))
                       else st5)
                 else st3)))"

text \<open>One poll cycle: the loop over the indices of \<open>courses\<close>, in order.\<close>

definition poll_cycle :: "env \<Rightarrow> Config \<Rightarrow> int \<Rightarrow> state \<Rightarrow> state" where
  "poll_cycle E cfg attempt st =
     fold (poll_step E cfg attempt) [0..<length (courses st)] st"

text \<open>
  The outer loop \<^verbatim>\<open>for attempt := 1; ; attempt++\<close>, which may run forever: \<open>fuel\<close> bounds
  the number of cycles, and \<open>None\<close> says that \<^verbatim>\<open>Run\<close> has not returned after that many.
  \<open>Some None\<close> is the return of \<^verbatim>\<open>nil\<close>. The wait between two cycles only reads the clock
  and prints progress.
\<close>

fun Run_loop :: "nat \<Rightarrow> env \<Rightarrow> Config \<Rightarrow> int \<Rightarrow> state \<Rightarrow> error option option \<times> state" where
  "Run_loop 0 E cfg attempt st = (None, st)"
| "Run_loop (Suc fuel) E cfg attempt st =
     (let st1 = poll_cycle E cfg attempt st in
      if remaining st1 = 0 then (Some None, println LineAllFound st1)
      else Run_loop fuel E cfg (attempt + 1) st1)"

text \<open>
  \<^verbatim>\<open>Run\<close>. The sender chosen from the options is bound to \<open>emailSender\<close> as in the
  source, where the variable is compared with nil and assigned but not used afterwards.
\<close>

definition Run :: "nat \<Rightarrow> env \<Rightarrow> RunOptions \<Rightarrow> error option option \<times> state" where
  "Run fuel E opts =
     (case loadConfig E (ConfigPath opts) of
        Inl err \<Rightarrow> (Some (Some (LoadConfigFailed err)), start)
      | Inr cfg \<Rightarrow>
          (let emailSender =
                 (case EmailSender opts of
                    None \<Rightarrow> ResendEmailSender (os_Getenv E ''RESEND_API_KEY'')
                  | Some s \<Rightarrow> s);
               st1 = init_courses E cfg (CRNs cfg) start
           in if length (courses st1) = 0 then (Some (Some NoValidCRNs), st1)
              else Run_loop fuel E cfg 1 (st1\<lparr>remaining := int (length (courses st1))\<rparr>)))"

section \<open>Notions used in the statements\<close>

text \<open>
  What \<^verbatim>\<open>cfg.checkSectionOpen(courses[i].CRN)\<close> returns when the body of the polling loop
  runs for index \<open>i\<close> in state \<open>st\<close> (the progress line is printed first).
\<close>

definition lookup_result :: "env \<Rightarrow> Config \<Rightarrow> int \<Rightarrow> nat \<Rightarrow> state \<Rightarrow> error + bool" where
  "lookup_result E cfg attempt i st =
     fst (checkSectionOpen E cfg (CRN (courses st ! i))
            (println (LineChecking attempt (CRN (courses st ! i))) st))"

text \<open>
  Events of course \<open>i\<close>: its availability lookups, the lookup that found it open (the
  transition from pending to found), and the notification sent for it.
\<close>

fun is_check_of :: "nat \<Rightarrow> event \<Rightarrow> bool" where
  "is_check_of i (EvCheck j crn r) = (i = j)"
| "is_check_of i e = False"

fun is_opening_of :: "nat \<Rightarrow> event \<Rightarrow> bool" where
  "is_opening_of i (EvCheck j crn r) = (i = j \<and> r = Inr True)"
| "is_opening_of i e = False"

fun is_notify_of :: "nat \<Rightarrow> event \<Rightarrow> bool" where
  "is_notify_of i (EvNotify j dest subject body r) = (i = j)"
| "is_notify_of i e = False"

text \<open>The number of courses that are still pending.\<close>

definition pending_count :: "state \<Rightarrow> int" where
  "pending_count st = int (length (filter (\<lambda>c. \<not> Found c) (courses st)))"

text \<open>
  Readers of the event log: the lookup an event records, the CRN a name resolution was
  made for, and the course a successful resolution appends.
\<close>

fun check_of :: "event \<Rightarrow> (nat \<times> string) list" where
  "check_of (EvCheck i crn r) = [(i, crn)]"
| "check_of e = []"

fun resolve_crn :: "event \<Rightarrow> string list" where
  "resolve_crn (EvResolve crn r) = [crn]"
| "resolve_crn e = []"

fun resolved_course :: "event \<Rightarrow> CourseStatus list" where
  "resolved_course (EvResolve crn (Inr name)) = [\<lparr>CRN = crn, Name = name, Found = False\<rparr>]"
| "resolved_course e = []"

text \<open>The indices of the pending courses, in the order of \<open>courses\<close>.\<close>

definition pending_indices :: "state \<Rightarrow> nat list" where
  "pending_indices st = filter (\<lambda>i. \<not> Found (courses st ! i)) [0..<length (courses st)]"

text \<open>The state in which the polling loop is entered, once a configuration is loaded.\<close>

definition loop_entry :: "env \<Rightarrow> Config \<Rightarrow> state" where
  "loop_entry E cfg =
     (let st1 = init_courses E cfg (CRNs cfg) start
      in st1\<lparr>remaining := int (length (courses st1))\<rparr>)"

text \<open>
  The events recorded about course \<open>i\<close>, and the invariant of the event log that the
  proofs maintain: per course at most one notification and at most one opening; an
  opening or a notification only for a course that is found, and an opening for every
  found course; every notification directly after the opening of its course.
\<close>

definition about :: "nat \<Rightarrow> event \<Rightarrow> bool" where
  "about i e \<longleftrightarrow> is_check_of i e \<or> is_notify_of i e"

definition history_ok :: "state \<Rightarrow> bool" where
  "history_ok st \<longleftrightarrow>
     (\<forall>i. length (filter (is_notify_of i) (events st)) \<le> 1 \<and>
          length (filter (is_opening_of i) (events st)) \<le> 1 \<and>
          ((\<exists>e\<in>set (events st). is_opening_of i e \<or> is_notify_of i e) \<longrightarrow>
             i < length (courses st) \<and> Found (courses st ! i)) \<and>
          (i < length (courses st) \<and> Found (courses st ! i) \<longrightarrow>
             (\<exists>e\<in>set (events st). is_opening_of i e))) \<and>
     (\<forall>k<length (events st). \<forall>i. is_notify_of i (events st ! k) \<longrightarrow>
          0 < k \<and> is_opening_of i (events st ! (k - 1)))"

text \<open>
  State \<open>s\<close> is a later state of \<open>st\<close> in which course \<open>i\<close> is found and nothing has been
  recorded about it since.
\<close>

definition settled :: "nat \<Rightarrow> state \<Rightarrow> state \<Rightarrow> bool" where
  "settled i st s \<longleftrightarrow>
     length (courses s) = length (courses st) \<and> i < length (courses s) \<and>
     Found (courses s ! i) \<and>
     filter (about i) (events s) = filter (about i) (events st)"

text \<open>A recorded lookup that returned without error.\<close>

fun lookup_succeeded :: "event \<Rightarrow> bool" where
  "lookup_succeeded (EvCheck j crn (Inr b)) = True"
| "lookup_succeeded e = False"

text \<open>
  The invariant of a cycle that has run for the indices below \<open>k\<close>, from state \<open>st\<close> to
  state \<open>s\<close>, recording the events \<open>new\<close>: the courses from \<open>k\<close> on are untouched, the
  events are about courses below \<open>k\<close>, a course whose lookup failed is unchanged, and if
  no lookup succeeded nothing has changed and nothing was sent.
\<close>

definition isolated :: "nat \<Rightarrow> state \<Rightarrow> state \<Rightarrow> event list \<Rightarrow> bool" where
  "isolated k st s new \<longleftrightarrow>
     events s = events st @ new \<and>
     length (courses s) = length (courses st) \<and>
     (\<forall>j\<ge>k. courses s ! j = courses st ! j) \<and>
     (\<forall>e\<in>set new. \<forall>j. about j e \<longrightarrow> j < k) \<and>
     (\<forall>j crn err. EvCheck j crn (Inl err) \<in> set new \<longrightarrow> courses s ! j = courses st ! j) \<and>
     ((\<forall>e\<in>set new. \<not> lookup_succeeded e) \<longrightarrow>
        courses s = courses st \<and> remaining s = remaining st \<and>
        (\<forall>e\<in>set new. \<forall>j. \<not> is_notify_of j e))"

text \<open>
  The state after \<open>n\<close> poll cycles, the attempt counter advancing as in the loop
  (the test of \<open>remaining\<close> between the cycles is left to the statements).
\<close>

fun cycles :: "nat \<Rightarrow> env \<Rightarrow> Config \<Rightarrow> int \<Rightarrow> state \<Rightarrow> state" where
  "cycles 0 E cfg attempt st = st"
| "cycles (Suc n) E cfg attempt st = cycles n E cfg (attempt + 1) (poll_cycle E cfg attempt st)"

section \<open>Concrete surroundings for the examples\<close>

text \<open>
  A timetable where the open-only search never lists section 222, with no notification
  address and no API key configured.
\<close>

definition page :: "string \<Rightarrow> (string \<times> string) list \<Rightarrow> response" where
  "page txt rows = \<lparr>StatusCode = 200, Status = ''200 OK'',
                     Body = Inr \<lparr>tableText = txt, tableRows = rows\<rparr>\<rparr>"

definition quiet_env :: env where
  "quiet_env =
     \<lparr>os_ReadFile = (\<lambda>p. if p = ''config.json'' then Inr ''{crns: [222]}'' else Inl ''no such file''),
      json_Unmarshal = (\<lambda>d. Inr \<lparr>CRNs = [''222''], Email = [], CheckInterval = 0,
                                   Term = [], Campus = [], BaseURL = []\<rparr>),
      os_Getenv = (\<lambda>v. []),
      network = (\<lambda>k url p. if p ''open_only'' = Some [''on''] then Inr (page [] [])
                            else Inr (page ''222 001 Algebra'' [(''222'', '' Algebra '')])),
      resend_api = (\<lambda>k key d s b. None)\<rparr>"

text \<open>A configuration with an empty base URL, as a caller of the two lookups may build it.\<close>

definition bare_config :: Config where
  "bare_config = \<lparr>CRNs = [''222''], Email = [], CheckInterval = 30, Term = ''202601'',
                   Campus = ''0'', BaseURL = []\<rparr>"

text \<open>The configuration that \<^verbatim>\<open>loadConfig\<close> returns in these surroundings.\<close>

definition quiet_config :: Config where
  "quiet_config = \<lparr>CRNs = [''222''], Email = [], CheckInterval = 30, Term = ''202601'',
                    Campus = ''0'', BaseURL = DefaultTimetableURL\<rparr>"

text \<open>
  A run with three configured CRNs. The name of 111 cannot be resolved (the server answers
  500); 222 and 333 resolve. In the first cycle the lookup of 222 fails and 333 is open;
  in the second cycle 222 is open. The first request to the Resend API fails. The
  options carry a test double as sender.
\<close>

definition demo_network :: "nat \<Rightarrow> string \<Rightarrow> url_Values \<Rightarrow> string + response" where
  "demo_network k url payload =
     (if k = 0 then Inr \<lparr>StatusCode = 500, Status = ''500 Internal Server Error'', Body = Inl []\<rparr>
      else if k = 1 then Inr (page ''222 001 Algebra'' [(''222'', '' Algebra '')])
      else if k = 2 then Inr (page ''333 001 Biology'' [(''333'', ''Biology'')])
      else if k = 3 then Inl ''connection refused''
      else if k = 4 then Inr (page ''333 001 Biology'' [(''333'', ''Biology'')])
      else Inr (page ''222 001 Algebra'' [(''222'', '' Algebra '')]))"

definition demo_config :: Config where
  "demo_config = \<lparr>CRNs = [''111'', ''222'', ''333''], Email = ''me@vt.edu'', CheckInterval = 30,
                   Term = ''202601'', Campus = ''0'', BaseURL = DefaultTimetableURL\<rparr>"

definition demo_env :: env where
  "demo_env =
     \<lparr>os_ReadFile = (\<lambda>p. if p = ''config.json'' then Inr ''{}'' else Inl ''no such file''),
      json_Unmarshal = (\<lambda>d. Inr \<lparr>CRNs = [''111'', ''222'', ''333''], Email = ''me@vt.edu'',
                                   CheckInterval = 0, Term = [], Campus = [], BaseURL = []\<rparr>),
      os_Getenv = (\<lambda>v. if v = ''RESEND_API_KEY'' then ''key'' else []),
      network = demo_network,
      resend_api = (\<lambda>k key d s b. if k = 0 then Some ''rate limited'' else None)\<rparr>"

definition demo_options :: RunOptions where
  "demo_options = \<lparr>ConfigPath = ''config.json'', EmailSender = Some (MockEmailSender False)\<rparr>"

text \<open>
  The states of this run when the polling loop is entered, after the first cycle and
  after the second cycle.
\<close>

definition demo_resolved :: "state" where
  "demo_resolved =
     \<lparr>courses = [\<lparr>CRN = ''222'', Name = ''Algebra'', Found = False\<rparr>,
                 \<lparr>CRN = ''333'', Name = ''Biology'', Found = False\<rparr>],
      remaining = 2,
      posts = [(DefaultTimetableURL, buildPayload demo_config ''111'' False),
               (DefaultTimetableURL, buildPayload demo_config ''222'' False),
               (DefaultTimetableURL, buildPayload demo_config ''333'' False)],
      mails = [], Sent = [],
      events = [EvResolve ''111'' (Inl (UnexpectedStatus 500 ''500 Internal Server Error'')),
                EvResolve ''222'' (Inr ''Algebra''), EvResolve ''333'' (Inr ''Biology'')],
      printed = [LineSkipping ''111'', LineResolved ''222'' ''Algebra'',
                 LineResolved ''333'' ''Biology'']\<rparr>"

definition demo_cycle1 :: "state" where
  "demo_cycle1 =
     \<lparr>courses = [\<lparr>CRN = ''222'', Name = ''Algebra'', Found = False\<rparr>,
                 \<lparr>CRN = ''333'', Name = ''Biology'', Found = True\<rparr>],
      remaining = 1,
      posts = posts demo_resolved @
              [(DefaultTimetableURL, buildPayload demo_config ''222'' True),
               (DefaultTimetableURL, buildPayload demo_config ''333'' True)],
      mails = [(''me@vt.edu'', ''VT Course Section Open!'', ''OPEN SEAT: Biology (CRN: 333)'')],
      Sent = [],
      events = events demo_resolved @
               [EvCheck 0 ''222'' (Inl (RequestFailed ''connection refused'')),
                EvCheck 1 ''333'' (Inr True),
                EvNotify 1 ''me@vt.edu'' ''VT Course Section Open!''
                  ''OPEN SEAT: Biology (CRN: 333)'' (Some (ResendError ''rate limited''))],
      printed = printed demo_resolved @
                [LineChecking 1 ''222'',
                 LineErrorChecking ''222'' (RequestFailed ''connection refused''),
                 LineChecking 1 ''333'', LineSeatAvailable ''Biology'' ''333'',
                 LineNotificationSent ''me@vt.edu'']\<rparr>"

definition demo_cycle2 :: "state" where
  "demo_cycle2 =
     \<lparr>courses = [\<lparr>CRN = ''222'', Name = ''Algebra'', Found = True\<rparr>,
                 \<lparr>CRN = ''333'', Name = ''Biology'', Found = True\<rparr>],
      remaining = 0,
      posts = posts demo_cycle1 @ [(DefaultTimetableURL, buildPayload demo_config ''222'' True)],
      mails = mails demo_cycle1 @
              [(''me@vt.edu'', ''VT Course Section Open!'', ''OPEN SEAT: Algebra (CRN: 222)'')],
      Sent = [],
      events = events demo_cycle1 @
               [EvCheck 0 ''222'' (Inr True),
                EvNotify 0 ''me@vt.edu'' ''VT Course Section Open!''
                  ''OPEN SEAT: Algebra (CRN: 222)'' None],
      printed = printed demo_cycle1 @
                [LineChecking 2 ''222'', LineSeatAvailable ''Algebra'' ''222'',
                 LineNotificationSent ''me@vt.edu'']\<rparr>"

text \<open>The same surroundings, but with a Resend API that accepts every request.\<close>

definition demo_env_delivering :: env where
  "demo_env_delivering = demo_env\<lparr>resend_api := (\<lambda>k key d s b. None)\<rparr>"

text \<open>The same surroundings, but with a network that refuses every connection.\<close>

definition demo_env_down :: env where
  "demo_env_down = demo_env\<lparr>network := (\<lambda>k url payload. Inl ''connection refused'')\<rparr>"

section \<open>What each operation does to the state\<close>

lemma start_fields:
  "courses start = []" "remaining start = 0" "posts start = []" "mails start = []"
  "Sent start = []" "events start = []" "printed start = []"
  by (simp_all add: start_def)

lemma fetchDocument_state:
  "snd (fetchDocument E u p st) = st\<lparr>posts := posts st @ [(u, p)]\<rparr>"
  by (simp add: fetchDocument_def Let_def split: sum.splits)

lemma checkSectionOpen_state:
  "snd (checkSectionOpen E c crn st) =
     st\<lparr>posts := posts st @ [(getBaseURL c, buildPayload c crn True)]\<rparr>"
proof -
  have "snd (checkSectionOpen E c crn st) =
        snd (fetchDocument E (getBaseURL c) (buildPayload c crn True) st)"
    by (simp add: checkSectionOpen_def Let_def split: prod.splits sum.splits)
  then show ?thesis by (simp add: fetchDocument_state)
qed

lemma getCourseName_state:
  "snd (getCourseName E c crn st) =
     st\<lparr>posts := posts st @ [(BaseURL c, buildPayload c crn False)]\<rparr>"
proof -
  have "snd (getCourseName E c crn st) =
        snd (fetchDocument E (BaseURL c) (buildPayload c crn False) st)"
    by (simp add: getCourseName_def Let_def split: prod.splits sum.splits)
  then show ?thesis by (simp add: fetchDocument_state)
qed

lemma sendEmail_state:
  "\<exists>ms. snd (sendEmail E d s b st) = st\<lparr>mails := ms\<rparr>"
proof (cases "os_Getenv E ''RESEND_API_KEY'' = []")
  case True
  then have "snd (sendEmail E d s b st) = st\<lparr>mails := mails st\<rparr>"
    by (simp add: sendEmail_def)
  then show ?thesis ..
next
  case False
  then have "snd (sendEmail E d s b st) = st\<lparr>mails := mails st @ [(d, s, b)]\<rparr>"
    by (simp add: sendEmail_def resend_Emails_Send_def)
  then show ?thesis ..
qed

lemma checkSectionOpen_pair:
  "checkSectionOpen E c crn st = (r, st') \<Longrightarrow>
     st' = st\<lparr>posts := posts st @ [(getBaseURL c, buildPayload c crn True)]\<rparr>"
  using checkSectionOpen_state [of E c crn st] by simp

lemma sendEmail_pair:
  "sendEmail E d s b st = (r, st') \<Longrightarrow> \<exists>ms. st' = st\<lparr>mails := ms\<rparr>"
  using sendEmail_state [of E d s b st] by simp

lemma poll_step_skip: "Found (courses st ! i) \<Longrightarrow> poll_step E cfg a i st = st"
  by (simp add: poll_step_def)

lemma poll_step_courses:
  "courses (poll_step E cfg a i st) =
     (if \<not> Found (courses st ! i) \<and> lookup_result E cfg a i st = Inr True
      then (courses st)[i := (courses st ! i)\<lparr>Found := True\<rparr>] else courses st)"
  by (auto simp: poll_step_def lookup_result_def Let_def println_def record_event_def
      split: prod.splits sum.splits dest!: checkSectionOpen_pair sendEmail_pair)

lemma poll_step_remaining:
  "remaining (poll_step E cfg a i st) =
     (if \<not> Found (courses st ! i) \<and> lookup_result E cfg a i st = Inr True
      then remaining st - 1 else remaining st)"
  by (auto simp: poll_step_def lookup_result_def Let_def println_def record_event_def
      split: prod.splits sum.splits dest!: checkSectionOpen_pair sendEmail_pair)

lemma poll_step_posts:
  "posts (poll_step E cfg a i st) =
     posts st @ (if Found (courses st ! i) then []
                 else [(getBaseURL cfg, buildPayload cfg (CRN (courses st ! i)) True)])"
  by (auto simp: poll_step_def lookup_result_def Let_def println_def record_event_def
      split: prod.splits sum.splits dest!: checkSectionOpen_pair sendEmail_pair)

lemma poll_step_Sent: "Sent (poll_step E cfg a i st) = Sent st"
  by (auto simp: poll_step_def lookup_result_def Let_def println_def record_event_def
      split: prod.splits sum.splits dest!: checkSectionOpen_pair sendEmail_pair)

lemma poll_step_events:
  assumes "i < length (courses st)"
  shows "\<exists>r. events (poll_step E cfg a i st) =
     events st @
     (if Found (courses st ! i) then []
      else EvCheck i (CRN (courses st ! i)) (lookup_result E cfg a i st) #
           (if lookup_result E cfg a i st = Inr True \<and> Email cfg \<noteq> []
            then [EvNotify i (Email cfg) ''VT Course Section Open!''
                    (''OPEN SEAT: '' @ Name (courses st ! i) @ '' (CRN: '' @
                     CRN (courses st ! i) @ '')'') r]
            else []))"
  using assms
  by (auto simp: poll_step_def lookup_result_def Let_def println_def record_event_def
      split: prod.splits sum.splits dest!: checkSectionOpen_pair sendEmail_pair)

lemma poll_step_length: "length (courses (poll_step E cfg a i st)) = length (courses st)"
  by (simp add: poll_step_courses)

lemma poll_step_other:
  "j \<noteq> i \<Longrightarrow> courses (poll_step E cfg a i st) ! j = courses st ! j"
  by (simp add: poll_step_courses)

text \<open>A property kept by every step of a cycle is kept by the cycle.\<close>

lemma fold_poll_step_invariant:
  assumes "P st"
    and "\<And>i s. P s \<Longrightarrow> i < length (courses s) \<Longrightarrow> P (poll_step E cfg a i s)"
    and "k \<le> length (courses st)"
  shows "P (fold (poll_step E cfg a) [0..<k] st) \<and>
         length (courses (fold (poll_step E cfg a) [0..<k] st)) = length (courses st)"
  using assms(3)
proof (induction k)
  case 0
  show ?case using assms(1) by simp
next
  case (Suc k)
  then show ?case using assms(2) by (simp add: poll_step_length)
qed

lemma poll_cycle_invariant:
  assumes "P st"
    and "\<And>i s. P s \<Longrightarrow> i < length (courses s) \<Longrightarrow> P (poll_step E cfg a i s)"
  shows "P (poll_cycle E cfg a st)"
  using fold_poll_step_invariant [OF assms, of "length (courses st)"]
  by (simp add: poll_cycle_def)

lemma Run_loop_invariant:
  assumes "P st"
    and "\<And>a i s. P s \<Longrightarrow> i < length (courses s) \<Longrightarrow> P (poll_step E cfg a i s)"
    and "\<And>s. P s \<Longrightarrow> P (println LineAllFound s)"
  shows "P (snd (Run_loop n E cfg a st))"
  using assms(1)
proof (induction n arbitrary: a st)
  case 0
  then show ?case by simp
next
  case (Suc n)
  have "P (poll_cycle E cfg a st)"
    using Suc.prems assms(2) by (rule poll_cycle_invariant)
  then show ?case using Suc.IH assms(3) by (simp add: Let_def)
qed

subsection \<open>remaining counts the pending courses\<close>

lemma pending_update:
  "i < length cs \<Longrightarrow> \<not> Found (cs ! i) \<Longrightarrow>
   int (length (filter (\<lambda>c. \<not> Found c) (cs[i := (cs ! i)\<lparr>Found := True\<rparr>]))) =
   int (length (filter (\<lambda>c. \<not> Found c) cs)) - 1"
proof (induction cs arbitrary: i)
  case Nil
  then show ?case by simp
next
  case (Cons c cs)
  then show ?case by (cases i) auto
qed

lemma poll_step_counts:
  assumes "i < length (courses st)" and "remaining st = pending_count st"
  shows "remaining (poll_step E cfg a i st) = pending_count (poll_step E cfg a i st)"
  using assms
  by (simp add: poll_step_remaining poll_step_courses pending_count_def pending_update)

lemma fold_poll_step_lookups:
  assumes "k \<le> length (courses st)"
  shows "length (courses (fold (poll_step E cfg a) [0..<k] st)) = length (courses st) \<and>
         (\<forall>j\<ge>k. courses (fold (poll_step E cfg a) [0..<k] st) ! j = courses st ! j) \<and>
         posts (fold (poll_step E cfg a) [0..<k] st) =
           posts st @ map (\<lambda>i. (getBaseURL cfg, buildPayload cfg (CRN (courses st ! i)) True))
                        (filter (\<lambda>i. \<not> Found (courses st ! i)) [0..<k]) \<and>
         (\<exists>new. events (fold (poll_step E cfg a) [0..<k] st) = events st @ new \<and>
                concat (map check_of new) =
                  map (\<lambda>i. (i, CRN (courses st ! i)))
                      (filter (\<lambda>i. \<not> Found (courses st ! i)) [0..<k]))"
  using assms
proof (induction k)
  case 0
  show ?case by simp
next
  case (Suc k)
  let ?s = "fold (poll_step E cfg a) [0..<k] st"
  from Suc have len: "length (courses ?s) = length (courses st)"
    and same: "\<forall>j\<ge>k. courses ?s ! j = courses st ! j"
    and posts: "posts ?s = posts st @ map (\<lambda>i. (getBaseURL cfg, buildPayload cfg (CRN (courses st ! i)) True))
                        (filter (\<lambda>i. \<not> Found (courses st ! i)) [0..<k])"
    by simp_all
  from Suc obtain new where new: "events ?s = events st @ new"
    "concat (map check_of new) =
       map (\<lambda>i. (i, CRN (courses st ! i))) (filter (\<lambda>i. \<not> Found (courses st ! i)) [0..<k])"
    by auto
  have k: "k < length (courses ?s)" using Suc.prems len by simp
  have at_k: "courses ?s ! k = courses st ! k" using same by simp
  obtain r where ev: "events (poll_step E cfg a k ?s) =
     events ?s @
     (if Found (courses ?s ! k) then []
      else EvCheck k (CRN (courses ?s ! k)) (lookup_result E cfg a k ?s) #
           (if lookup_result E cfg a k ?s = Inr True \<and> Email cfg \<noteq> []
            then [EvNotify k (Email cfg) ''VT Course Section Open!''
                    (''OPEN SEAT: '' @ Name (courses ?s ! k) @ '' (CRN: '' @
                     CRN (courses ?s ! k) @ '')'') r]
            else []))"
    using poll_step_events [OF k] by blast
  have 1: "length (courses (poll_step E cfg a k ?s)) = length (courses st)"
    by (simp add: poll_step_length len)
  have 2: "\<forall>j\<ge>Suc k. courses (poll_step E cfg a k ?s) ! j = courses st ! j"
    using same by (simp add: poll_step_other)
  have 3: "posts (poll_step E cfg a k ?s) =
           posts st @ map (\<lambda>i. (getBaseURL cfg, buildPayload cfg (CRN (courses st ! i)) True))
                        (filter (\<lambda>i. \<not> Found (courses st ! i)) [0..<Suc k])"
    by (simp add: poll_step_posts posts at_k)
  have 4: "\<exists>new'. events (poll_step E cfg a k ?s) = events st @ new' \<and>
                concat (map check_of new') =
                  map (\<lambda>i. (i, CRN (courses st ! i)))
                      (filter (\<lambda>i. \<not> Found (courses st ! i)) [0..<Suc k])"
    using ev new by (simp add: at_k)
  from 1 2 3 4 show ?case by simp
qed

section \<open>Initialisation and the loop\<close>

lemma getCourseName_pair:
  "getCourseName E c crn st = (r, st') \<Longrightarrow>
     st' = st\<lparr>posts := posts st @ [(BaseURL c, buildPayload c crn False)]\<rparr>"
  using getCourseName_state [of E c crn st] by simp

lemma init_courses_effect:
  "\<exists>new. events (init_courses E cfg crns st) = events st @ new \<and>
         length new = length crns \<and>
         concat (map resolve_crn new) = crns \<and>
         courses (init_courses E cfg crns st) = courses st @ concat (map resolved_course new) \<and>
         posts (init_courses E cfg crns st) =
           posts st @ map (\<lambda>crn. (BaseURL cfg, buildPayload cfg crn False)) crns \<and>
         remaining (init_courses E cfg crns st) = remaining st \<and>
         mails (init_courses E cfg crns st) = mails st \<and>
         Sent (init_courses E cfg crns st) = Sent st"
proof (induction crns arbitrary: st)
  case Nil
  show ?case by simp
next
  case (Cons crn crns)
  obtain r st1 where g: "getCourseName E cfg crn st = (r, st1)"
    by (cases "getCourseName E cfg crn st")
  note st1 = getCourseName_pair [OF g]
  show ?case
  proof (cases r)
    case (Inl err)
    let ?s = "println (LineSkipping crn) (record_event (EvResolve crn (Inl err)) st1)"
    from Cons.IH [of ?s] obtain new where
      "events (init_courses E cfg crns ?s) = events ?s @ new \<and>
         length new = length crns \<and>
         concat (map resolve_crn new) = crns \<and>
         courses (init_courses E cfg crns ?s) = courses ?s @ concat (map resolved_course new) \<and>
         posts (init_courses E cfg crns ?s) =
           posts ?s @ map (\<lambda>crn. (BaseURL cfg, buildPayload cfg crn False)) crns \<and>
         remaining (init_courses E cfg crns ?s) = remaining ?s \<and>
         mails (init_courses E cfg crns ?s) = mails ?s \<and>
         Sent (init_courses E cfg crns ?s) = Sent ?s" by blast
    then show ?thesis
      using g Inl st1
      by (intro exI [of _ "EvResolve crn (Inl err) # new"])
        (simp add: println_def record_event_def)
  next
    case (Inr name)
    let ?s2 = "record_event (EvResolve crn (Inr name)) st1"
    let ?s = "println (LineResolved crn name)
                (?s2\<lparr>courses := courses ?s2 @ [\<lparr>CRN = crn, Name = name, Found = False\<rparr>]\<rparr>)"
    from Cons.IH [of ?s] obtain new where
      "events (init_courses E cfg crns ?s) = events ?s @ new \<and>
         length new = length crns \<and>
         concat (map resolve_crn new) = crns \<and>
         courses (init_courses E cfg crns ?s) = courses ?s @ concat (map resolved_course new) \<and>
         posts (init_courses E cfg crns ?s) =
           posts ?s @ map (\<lambda>crn. (BaseURL cfg, buildPayload cfg crn False)) crns \<and>
         remaining (init_courses E cfg crns ?s) = remaining ?s \<and>
         mails (init_courses E cfg crns ?s) = mails ?s \<and>
         Sent (init_courses E cfg crns ?s) = Sent ?s" by blast
    then show ?thesis
      using g Inr st1
      by (intro exI [of _ "EvResolve crn (Inr name) # new"])
        (simp add: println_def record_event_def Let_def)
  qed
qed

lemma resolved_course_pending: "c \<in> set (resolved_course e) \<Longrightarrow> \<not> Found c"
  by (cases e rule: resolved_course.cases) auto

lemma init_courses_start:
  "\<exists>new. events (init_courses E cfg crns start) = new \<and>
         length new = length crns \<and>
         concat (map resolve_crn new) = crns \<and>
         courses (init_courses E cfg crns start) = concat (map resolved_course new) \<and>
         posts (init_courses E cfg crns start) =
           map (\<lambda>crn. (BaseURL cfg, buildPayload cfg crn False)) crns \<and>
         remaining (init_courses E cfg crns start) = 0 \<and>
         mails (init_courses E cfg crns start) = [] \<and>
         Sent (init_courses E cfg crns start) = []"
  using init_courses_effect [of E cfg crns start] by (simp add: start_fields)

lemma init_courses_pending:
  "c \<in> set (courses (init_courses E cfg crns start)) \<Longrightarrow> \<not> Found c"
  using init_courses_start [of E cfg crns] by (auto dest: resolved_course_pending)

lemma resolve_crn_length: "length (resolve_crn e) \<le> 1"
  by (cases e) simp_all

lemma resolve_crns_length: "length (concat (map resolve_crn es)) \<le> length es"
proof (induction es)
  case Nil
  show ?case by simp
next
  case (Cons x es)
  then show ?case using resolve_crn_length [of x] by simp
qed

lemma all_resolves:
  "length es = length (concat (map resolve_crn es)) \<Longrightarrow> e \<in> set es \<Longrightarrow>
   \<exists>crn r. e = EvResolve crn r"
proof (induction es)
  case Nil
  then show ?case by simp
next
  case (Cons x es)
  show ?case
    using Cons resolve_crns_length [of es] by (cases x) auto
qed

lemma init_courses_only_resolves:
  assumes "e \<in> set (events (init_courses E cfg crns start))"
  shows "\<exists>crn r. e = EvResolve crn r"
proof -
  have "length (events (init_courses E cfg crns start)) =
        length (concat (map resolve_crn (events (init_courses E cfg crns start))))"
    using init_courses_start [of E cfg crns] by simp
  from all_resolves [OF this assms] show ?thesis .
qed

lemma Run_load_failed:
  "loadConfig E (ConfigPath opts) = Inl err \<Longrightarrow>
   Run fuel E opts = (Some (Some (LoadConfigFailed err)), start)"
  by (simp add: Run_def)

lemma Run_no_courses:
  "loadConfig E (ConfigPath opts) = Inr cfg \<Longrightarrow>
   courses (init_courses E cfg (CRNs cfg) start) = [] \<Longrightarrow>
   Run fuel E opts = (Some (Some NoValidCRNs), init_courses E cfg (CRNs cfg) start)"
  by (simp add: Run_def Let_def)

lemma Run_polls:
  "loadConfig E (ConfigPath opts) = Inr cfg \<Longrightarrow>
   courses (init_courses E cfg (CRNs cfg) start) \<noteq> [] \<Longrightarrow>
   Run fuel E opts = Run_loop fuel E cfg 1 (loop_entry E cfg)"
  by (simp add: Run_def loop_entry_def Let_def)

lemma Run_loop_result: "fst (Run_loop n E cfg a st) = None \<or> fst (Run_loop n E cfg a st) = Some None"
  by (induction n arbitrary: a st) (simp_all add: Let_def)

lemma Run_invariant:
  assumes "P start"
    and "\<And>cfg. courses (init_courses E cfg (CRNs cfg) start) = [] \<Longrightarrow>
           P (init_courses E cfg (CRNs cfg) start)"
    and "\<And>cfg. P (loop_entry E cfg)"
    and "\<And>cfg a i s. P s \<Longrightarrow> i < length (courses s) \<Longrightarrow> P (poll_step E cfg a i s)"
    and "\<And>s. P s \<Longrightarrow> P (println LineAllFound s)"
  shows "P (snd (Run fuel E opts))"
proof (cases "loadConfig E (ConfigPath opts)")
  case (Inl err)
  then show ?thesis using assms(1) by (simp add: Run_load_failed)
next
  case (Inr cfg)
  show ?thesis
  proof (cases "courses (init_courses E cfg (CRNs cfg) start) = []")
    case True
    then show ?thesis using Inr assms(2) by (simp add: Run_no_courses)
  next
    case False
    have "P (snd (Run_loop fuel E cfg 1 (loop_entry E cfg)))"
      using assms(3) assms(4) assms(5) by (rule Run_loop_invariant)
    then show ?thesis using Inr False by (simp add: Run_polls)
  qed
qed

lemma loop_entry_fields:
  "courses (loop_entry E cfg) = courses (init_courses E cfg (CRNs cfg) start)"
  "remaining (loop_entry E cfg) = int (length (courses (init_courses E cfg (CRNs cfg) start)))"
  "events (loop_entry E cfg) = events (init_courses E cfg (CRNs cfg) start)"
  "posts (loop_entry E cfg) = posts (init_courses E cfg (CRNs cfg) start)"
  "Sent (loop_entry E cfg) = Sent (init_courses E cfg (CRNs cfg) start)"
  by (simp_all add: loop_entry_def Let_def)

lemma all_pending_count: "(\<And>c. c \<in> set cs \<Longrightarrow> \<not> Found c) \<Longrightarrow> filter (\<lambda>c. \<not> Found c) cs = cs"
  by (induction cs) auto

lemma init_courses_count:
  "pending_count (init_courses E cfg crns start) =
   int (length (courses (init_courses E cfg crns start)))"
  unfolding pending_count_def
  using all_pending_count [of "courses (init_courses E cfg crns start)"] init_courses_pending
  by metis

lemma println_fields:
  "courses (println l s) = courses s" "remaining (println l s) = remaining s"
  "events (println l s) = events s" "posts (println l s) = posts s"
  "mails (println l s) = mails s" "Sent (println l s) = Sent s"
  "printed (println l s) = printed s @ [l]"
  by (simp_all add: println_def)

lemma pending_count_println: "pending_count (println l s) = pending_count s"
  by (simp add: pending_count_def println_fields)

lemma concat_empty_iff: "(concat (map f xs) = []) = (\<forall>x\<in>set xs. f x = [])"
  by (induction xs) auto

section \<open>The example run, evaluated\<close>

lemma demo_loadConfig: "loadConfig demo_env ''config.json'' = Inr demo_config"
  by (simp add: loadConfig_def demo_env_def demo_config_def Let_def)

lemma demo_getBaseURL:
  "getBaseURL demo_config = DefaultTimetableURL" "BaseURL demo_config = DefaultTimetableURL"
  "DefaultTimetableURL \<noteq> []" "Email demo_config = ''me@vt.edu''"
  by (simp_all add: getBaseURL_def demo_config_def DefaultTimetableURL_def)

lemma demo_init:
  "init_courses demo_env demo_config (CRNs demo_config) start = demo_resolved\<lparr>remaining := 0\<rparr>"
proof -
  have "CRNs demo_config = [''111'', ''222'', ''333'']" by (simp add: demo_config_def)
  then show ?thesis
  by (simp add: getCourseName_def fetchDocument_def http_PostForm_def demo_getBaseURL
      demo_env_def demo_network_def page_def start_def println_def record_event_def
      strings_TrimSpace_def isSpace_def demo_resolved_def Let_def)
qed

lemma demo_first_cycle: "poll_cycle demo_env demo_config 1 demo_resolved = demo_cycle1"
  by (simp add: poll_cycle_def poll_step_def checkSectionOpen_def fetchDocument_def
      http_PostForm_def demo_getBaseURL demo_env_def demo_network_def page_def
      println_def record_event_def sendEmail_def resend_Emails_Send_def
      demo_resolved_def demo_cycle1_def Let_def upt_rec)

lemma demo_second_cycle: "poll_cycle demo_env demo_config 2 demo_cycle1 = demo_cycle2"
  by (simp add: poll_cycle_def poll_step_def checkSectionOpen_def fetchDocument_def
      http_PostForm_def demo_getBaseURL demo_env_def demo_network_def page_def
      println_def record_event_def sendEmail_def resend_Emails_Send_def
      demo_resolved_def demo_cycle1_def demo_cycle2_def Let_def upt_rec)

lemma demo_Run_0: "Run 0 demo_env demo_options = (None, demo_resolved)"
  by (simp add: Run_def demo_options_def demo_loadConfig demo_getBaseURL demo_init)
    (simp add: demo_resolved_def)

lemma demo_Run_1: "Run (Suc 0) demo_env demo_options = (None, demo_cycle1)"
proof -
  have "Run (Suc 0) demo_env demo_options = Run_loop (Suc 0) demo_env demo_config 1 demo_resolved"
    by (simp add: Run_def demo_options_def demo_loadConfig demo_getBaseURL demo_init)
      (simp add: demo_resolved_def)
  then show ?thesis by (simp add: demo_first_cycle) (simp add: demo_cycle1_def)
qed

lemma demo_Run_2: "Run (Suc (Suc n)) demo_env demo_options = (Some None, println LineAllFound demo_cycle2)"
proof -
  have "Run (Suc (Suc n)) demo_env demo_options = Run_loop (Suc (Suc n)) demo_env demo_config 1 demo_resolved"
    by (simp add: Run_def demo_options_def demo_loadConfig demo_getBaseURL demo_init)
      (simp add: demo_resolved_def)
  moreover have "remaining demo_cycle1 \<noteq> 0" "remaining demo_cycle2 = 0"
    by (simp_all add: demo_cycle1_def demo_cycle2_def)
  ultimately show ?thesis by (simp add: demo_first_cycle demo_second_cycle)
qed

section \<open>The history of a course\<close>

lemma poll_step_shape:
  assumes "i < length (courses st)"
  obtains (skipped) "Found (courses st ! i)" "poll_step E cfg a i st = st"
  | (unopened) r where "\<not> Found (courses st ! i)" "r \<noteq> Inr True"
      "lookup_result E cfg a i st = r"
      "events (poll_step E cfg a i st) = events st @ [EvCheck i (CRN (courses st ! i)) r]"
      "courses (poll_step E cfg a i st) = courses st"
      "remaining (poll_step E cfg a i st) = remaining st"
  | (opened) "\<not> Found (courses st ! i)" "Email cfg = []"
      "lookup_result E cfg a i st = Inr True"
      "events (poll_step E cfg a i st) =
         events st @ [EvCheck i (CRN (courses st ! i)) (Inr True)]"
      "courses (poll_step E cfg a i st) = (courses st)[i := (courses st ! i)\<lparr>Found := True\<rparr>]"
      "remaining (poll_step E cfg a i st) = remaining st - 1"
  | (notified) r where "\<not> Found (courses st ! i)" "Email cfg \<noteq> []"
      "lookup_result E cfg a i st = Inr True"
      "events (poll_step E cfg a i st) =
         events st @ [EvCheck i (CRN (courses st ! i)) (Inr True),
                      EvNotify i (Email cfg) ''VT Course Section Open!''
                        (''OPEN SEAT: '' @ Name (courses st ! i) @ '' (CRN: '' @
                         CRN (courses st ! i) @ '')'') r]"
      "courses (poll_step E cfg a i st) = (courses st)[i := (courses st ! i)\<lparr>Found := True\<rparr>]"
      "remaining (poll_step E cfg a i st) = remaining st - 1"
proof -
  from poll_step_events [OF assms, of E cfg a] obtain r where
    ev: "events (poll_step E cfg a i st) =
     events st @
     (if Found (courses st ! i) then []
      else EvCheck i (CRN (courses st ! i)) (lookup_result E cfg a i st) #
           (if lookup_result E cfg a i st = Inr True \<and> Email cfg \<noteq> []
            then [EvNotify i (Email cfg) ''VT Course Section Open!''
                    (''OPEN SEAT: '' @ Name (courses st ! i) @ '' (CRN: '' @
                     CRN (courses st ! i) @ '')'') r]
            else []))" by blast
  show thesis
  proof (cases "Found (courses st ! i)")
    case True
    then show thesis using skipped by (simp add: poll_step_skip)
  next
    case pending: False
    show thesis
    proof (cases "lookup_result E cfg a i st = Inr True")
      case False
      then show thesis
        using pending ev unopened [of "lookup_result E cfg a i st"]
        by (simp add: poll_step_courses poll_step_remaining)
    next
      case True
      show thesis
      proof (cases "Email cfg = []")
        case True
        then show thesis
          using pending ev opened \<open>lookup_result E cfg a i st = Inr True\<close>
          by (simp add: poll_step_courses poll_step_remaining)
      next
        case False
        then show thesis
          using pending ev notified [of r] \<open>lookup_result E cfg a i st = Inr True\<close>
          by (simp add: poll_step_courses poll_step_remaining)
      qed
    qed
  qed
qed

lemma history_ok_step:
  assumes ok: "history_ok st" and i: "i < length (courses st)"
  shows "history_ok (poll_step E cfg a i st)"
  using i
proof (cases rule: poll_step_shape [of i st E cfg a])
  case skipped
  then show ?thesis using ok by simp
next
  case (unopened r)
  have new: "\<And>j. \<not> is_opening_of j (EvCheck i (CRN (courses st ! i)) r)"
    "\<And>j. \<not> is_notify_of j (EvCheck i (CRN (courses st ! i)) r)"
    using unopened(2) by simp_all
  show ?thesis
    using ok new unfolding history_ok_def unopened(4,5)
    by (auto simp: nth_append less_Suc_eq)
next
  case opened
  have fresh: "\<And>e. e \<in> set (events st) \<Longrightarrow> \<not> is_opening_of i e \<and> \<not> is_notify_of i e"
    using ok opened(1) unfolding history_ok_def by blast
  have f1: "filter (is_opening_of i) (events st) = []" "filter (is_notify_of i) (events st) = []"
    using fresh by (simp_all add: filter_empty_conv)
  show ?thesis
    unfolding history_ok_def opened(4,5)
  proof (intro conjI allI impI)
    fix j
    show "length (filter (is_notify_of j) (events st @ [EvCheck i (CRN (courses st ! i)) (Inr True)])) \<le> 1"
      using ok unfolding history_ok_def by simp
    show "length (filter (is_opening_of j) (events st @ [EvCheck i (CRN (courses st ! i)) (Inr True)])) \<le> 1"
      using ok f1 unfolding history_ok_def by (cases "j = i") simp_all
    show "j < length ((courses st)[i := (courses st ! i)\<lparr>Found := True\<rparr>])"
      if "\<exists>e\<in>set (events st @ [EvCheck i (CRN (courses st ! i)) (Inr True)]).
            is_opening_of j e \<or> is_notify_of j e"
      using that ok i unfolding history_ok_def by (cases "j = i") auto
    show "Found ((courses st)[i := (courses st ! i)\<lparr>Found := True\<rparr>] ! j)"
      if "\<exists>e\<in>set (events st @ [EvCheck i (CRN (courses st ! i)) (Inr True)]).
            is_opening_of j e \<or> is_notify_of j e"
      using that ok i unfolding history_ok_def by (cases "j = i") auto
    show "\<exists>e\<in>set (events st @ [EvCheck i (CRN (courses st ! i)) (Inr True)]). is_opening_of j e"
      if "j < length ((courses st)[i := (courses st ! i)\<lparr>Found := True\<rparr>]) \<and>
          Found ((courses st)[i := (courses st ! i)\<lparr>Found := True\<rparr>] ! j)"
      using that ok i unfolding history_ok_def by (cases "j = i") auto
  next
    fix k j
    assume "k < length (events st @ [EvCheck i (CRN (courses st ! i)) (Inr True)])"
      "is_notify_of j ((events st @ [EvCheck i (CRN (courses st ! i)) (Inr True)]) ! k)"
    then have "k < length (events st) \<and> is_notify_of j (events st ! k)"
      by (auto simp: nth_append less_Suc_eq split: if_splits)
    then have "0 < k \<and> is_opening_of j (events st ! (k - 1))"
      using ok unfolding history_ok_def by blast
    then show "0 < k" "is_opening_of j ((events st @ [EvCheck i (CRN (courses st ! i)) (Inr True)]) ! (k - 1))"
      using \<open>k < length (events st) \<and> is_notify_of j (events st ! k)\<close>
      by (auto simp: nth_append)
  qed
next
  case (notified r)
  let ?c = "EvCheck i (CRN (courses st ! i)) (Inr True)"
  let ?n = "EvNotify i (Email cfg) ''VT Course Section Open!''
                        (''OPEN SEAT: '' @ Name (courses st ! i) @ '' (CRN: '' @
                         CRN (courses st ! i) @ '')'') r"
  have fresh: "\<And>e. e \<in> set (events st) \<Longrightarrow> \<not> is_opening_of i e \<and> \<not> is_notify_of i e"
    using ok notified(1) unfolding history_ok_def by blast
  have f1: "filter (is_opening_of i) (events st) = []" "filter (is_notify_of i) (events st) = []"
    using fresh by (simp_all add: filter_empty_conv)
  show ?thesis
    unfolding history_ok_def notified(4,5)
  proof (intro conjI allI impI)
    fix j
    show "length (filter (is_notify_of j) (events st @ [?c, ?n])) \<le> 1"
      using ok f1 unfolding history_ok_def by (cases "j = i") simp_all
    show "length (filter (is_opening_of j) (events st @ [?c, ?n])) \<le> 1"
      using ok f1 unfolding history_ok_def by (cases "j = i") simp_all
    show "j < length ((courses st)[i := (courses st ! i)\<lparr>Found := True\<rparr>])"
      if "\<exists>e\<in>set (events st @ [?c, ?n]). is_opening_of j e \<or> is_notify_of j e"
      using that ok i unfolding history_ok_def by (cases "j = i") auto
    show "Found ((courses st)[i := (courses st ! i)\<lparr>Found := True\<rparr>] ! j)"
      if "\<exists>e\<in>set (events st @ [?c, ?n]). is_opening_of j e \<or> is_notify_of j e"
      using that ok i unfolding history_ok_def by (cases "j = i") auto
    show "\<exists>e\<in>set (events st @ [?c, ?n]). is_opening_of j e"
      if "j < length ((courses st)[i := (courses st ! i)\<lparr>Found := True\<rparr>]) \<and>
          Found ((courses st)[i := (courses st ! i)\<lparr>Found := True\<rparr>] ! j)"
      using that ok i unfolding history_ok_def by (cases "j = i") auto
  next
    fix k j
    assume k: "k < length (events st @ [?c, ?n])"
      and n: "is_notify_of j ((events st @ [?c, ?n]) ! k)"
    have pos: "k < length (events st) \<or> k = length (events st) \<or>
               k = Suc (length (events st))"
      using k by (auto simp: less_Suc_eq)
    have both: "0 < k \<and> is_opening_of j ((events st @ [?c, ?n]) ! (k - 1))"
      using pos
    proof (elim disjE)
      assume 1: "k < length (events st)"
      then have "is_notify_of j (events st ! k)" using n by (simp add: nth_append)
      then have "0 < k \<and> is_opening_of j (events st ! (k - 1))"
        using 1 ok unfolding history_ok_def by blast
      moreover have "k - 1 < length (events st)" using 1 by simp
      ultimately show ?thesis by (simp add: nth_append)
    next
      assume 2: "k = length (events st)"
      then show ?thesis using n by (simp add: nth_append)
    next
      assume 3: "k = Suc (length (events st))"
      then show ?thesis using n by (simp add: nth_append)
    qed
    from both show "0 < k" ..
    from both show "is_opening_of j ((events st @ [?c, ?n]) ! (k - 1))" ..
  qed
qed

lemma history_ok_println: "history_ok s \<Longrightarrow> history_ok (println l s)"
  by (simp add: history_ok_def println_fields)

lemma history_ok_init:
  assumes "events s = events (init_courses E cfg crns start)"
    and "courses s = courses (init_courses E cfg crns start)"
  shows "history_ok s"
proof -
  have res: "\<And>e. e \<in> set (events s) \<Longrightarrow> \<exists>crn r. e = EvResolve crn r"
    using init_courses_only_resolves assms(1) by simp
  have no: "\<And>e i. e \<in> set (events s) \<Longrightarrow> \<not> is_opening_of i e \<and> \<not> is_notify_of i e"
    using res by fastforce
  have f: "\<And>i. filter (is_opening_of i) (events s) = [] \<and> filter (is_notify_of i) (events s) = []"
    using no by (simp add: filter_empty_conv)
  have pend: "\<And>i. i < length (courses s) \<Longrightarrow> \<not> Found (courses s ! i)"
    using init_courses_pending [of _ E cfg crns] assms(2) nth_mem by metis
  show ?thesis
    unfolding history_ok_def using no f pend by (auto dest: nth_mem)
qed

lemma Run_history_ok: "history_ok (snd (Run fuel E opts))"
proof (rule Run_invariant)
  show "history_ok start" by (simp add: history_ok_def start_fields)
next
  fix c
  show "history_ok (init_courses E c (CRNs c) start)"
    by (rule history_ok_init) simp_all
next
  fix c
  show "history_ok (loop_entry E c)"
    by (rule history_ok_init [of _ E c "CRNs c"]) (simp_all add: loop_entry_fields)
next
  fix c b j s
  assume "history_ok s" "j < length (courses s)"
  then show "history_ok (poll_step E c b j s)" by (rule history_ok_step)
next
  fix s
  assume "history_ok s"
  then show "history_ok (println LineAllFound s)" by (rule history_ok_println)
qed

lemma settled_step:
  assumes "settled i st s" and "j < length (courses s)"
  shows "settled i st (poll_step E cfg a j s)"
proof (cases "j = i")
  case True
  then show ?thesis using assms by (simp add: settled_def poll_step_skip)
next
  case False
  obtain r where ev: "events (poll_step E cfg a j s) =
     events s @
     (if Found (courses s ! j) then []
      else EvCheck j (CRN (courses s ! j)) (lookup_result E cfg a j s) #
           (if lookup_result E cfg a j s = Inr True \<and> Email cfg \<noteq> []
            then [EvNotify j (Email cfg) ''VT Course Section Open!''
                    (''OPEN SEAT: '' @ Name (courses s ! j) @ '' (CRN: '' @
                     CRN (courses s ! j) @ '')'') r]
            else []))"
    using poll_step_events [OF assms(2), of E cfg a] by blast
  have "filter (about i) (events (poll_step E cfg a j s)) = filter (about i) (events s)"
    unfolding ev using False by (simp add: about_def)
  then show ?thesis
    using assms False by (simp add: settled_def poll_step_length poll_step_other)
qed

lemma Run_loop_settled:
  assumes "i < length (courses st)" and "Found (courses st ! i)"
  shows "settled i st (snd (Run_loop n E cfg a st))"
proof (rule Run_loop_invariant)
  show "settled i st st" using assms by (simp add: settled_def)
next
  fix b j s
  assume "settled i st s" "j < length (courses s)"
  then show "settled i st (poll_step E cfg b j s)" by (rule settled_step)
next
  fix s
  assume "settled i st s"
  then show "settled i st (println LineAllFound s)"
    by (simp add: settled_def println_fields)
qed

lemma Run_loop_add:
  "Run_loop (n + m) E cfg a st =
     (if fst (Run_loop n E cfg a st) = None
      then Run_loop m E cfg (a + int n) (snd (Run_loop n E cfg a st))
      else Run_loop n E cfg a st)"
proof (induction n arbitrary: a st)
  case 0
  show ?case by simp
next
  case (Suc n)
  show ?case
  proof (cases "remaining (poll_cycle E cfg a st) = 0")
    case True
    then show ?thesis by (simp add: Let_def)
  next
    case False
    then show ?thesis
      using Suc [of "a + 1" "poll_cycle E cfg a st"] by (simp add: Let_def add.assoc)
  qed
qed

lemma Run_later:
  "Run (fuel + n) E opts = Run fuel E opts \<or>
   (\<exists>cfg a. Run (fuel + n) E opts = Run_loop n E cfg a (snd (Run fuel E opts)))"
proof (cases "loadConfig E (ConfigPath opts)")
  case (Inl err)
  then show ?thesis by (simp add: Run_load_failed)
next
  case (Inr cfg)
  show ?thesis
  proof (cases "courses (init_courses E cfg (CRNs cfg) start) = []")
    case True
    then show ?thesis using Inr by (simp add: Run_no_courses)
  next
    case False
    then show ?thesis
      using Inr Run_loop_add [of fuel n E cfg 1 "loop_entry E cfg"]
      by (auto simp: Run_polls)
  qed
qed

lemma Run_settled:
  assumes "i < length (courses (snd (Run fuel E opts)))"
    and "Found (courses (snd (Run fuel E opts)) ! i)"
  shows "settled i (snd (Run fuel E opts)) (snd (Run (fuel + n) E opts))"
  using Run_later [of fuel n E opts]
proof
  assume "Run (fuel + n) E opts = Run fuel E opts"
  then show ?thesis using assms by (simp add: settled_def)
next
  assume "\<exists>cfg a. Run (fuel + n) E opts = Run_loop n E cfg a (snd (Run fuel E opts))"
  then obtain cfg a where
    "Run (fuel + n) E opts = Run_loop n E cfg a (snd (Run fuel E opts))" by blast
  then show ?thesis using Run_loop_settled [OF assms, of n E cfg a] by simp
qed

lemma demo_Run_2': "Run (Suc 0 + 1) demo_env demo_options = (Some None, println LineAllFound demo_cycle2)"
  using demo_Run_2 [of 0] by simp

lemma filter_single:
  assumes "length (filter P xs) \<le> 1" and "x \<in> set xs" and "P x"
  shows "filter P xs = [x]"
proof -
  have "x \<in> set (filter P xs)" using assms(2,3) by simp
  then show ?thesis using assms(1) by (cases "filter P xs") auto
qed

lemma filter_notify_about:
  "filter (is_notify_of i) (filter (about i) xs) = filter (is_notify_of i) xs"
  by (induction xs) (auto simp: about_def)

section \<open>A poll cycle\<close>

lemma poll_cycle_lookups:
  "posts (poll_cycle E cfg a st) =
     posts st @ map (\<lambda>i. (getBaseURL cfg, buildPayload cfg (CRN (courses st ! i)) True))
                    (pending_indices st) \<and>
   concat (map check_of (drop (length (events st)) (events (poll_cycle E cfg a st)))) =
     map (\<lambda>i. (i, CRN (courses st ! i))) (pending_indices st)"
  using fold_poll_step_lookups [of "length (courses st)" st E cfg a]
  by (auto simp: poll_cycle_def pending_indices_def)

lemma isolated_earlier:
  assumes "isolated k st s new" and "EvCheck j crn r \<in> set new"
  shows "j < k"
proof -
  have "about j (EvCheck j crn r)" by (simp add: about_def)
  then show ?thesis using assms unfolding isolated_def by blast
qed

lemma isolated_extend:
  assumes iso: "isolated k st s new"
    and ev: "events s' = events s @ add"
    and len: "length (courses s') = length (courses s)"
    and other: "\<And>j. j \<noteq> k \<Longrightarrow> courses s' ! j = courses s ! j"
    and abt: "\<And>e j. e \<in> set add \<Longrightarrow> about j e \<Longrightarrow> j = k"
    and failed: "(\<exists>j crn err. EvCheck j crn (Inl err) \<in> set add) \<or>
                 (\<forall>e\<in>set add. \<not> lookup_succeeded e) \<Longrightarrow>
                 courses s' = courses s \<and> remaining s' = remaining s \<and>
                 (\<forall>e\<in>set add. \<forall>j. \<not> is_notify_of j e)"
  shows "isolated (Suc k) st s' (new @ add)"
proof -
  note i = iso [unfolded isolated_def]
  have 1: "events s' = events st @ (new @ add)" using i ev by simp
  have 2: "length (courses s') = length (courses st)" using i len by simp
  have 3: "\<forall>j\<ge>Suc k. courses s' ! j = courses st ! j"
  proof (intro allI impI)
    fix j assume "Suc k \<le> j"
    then have "j \<noteq> k" "k \<le> j" by simp_all
    then show "courses s' ! j = courses st ! j" using other i by simp
  qed
  have 4: "\<forall>e\<in>set (new @ add). \<forall>j. about j e \<longrightarrow> j < Suc k"
  proof (intro ballI allI impI)
    fix e j assume "e \<in> set (new @ add)" "about j e"
    then consider "e \<in> set new" | "e \<in> set add" by auto
    then show "j < Suc k"
    proof cases
      case 1
      then have "j < k" using i \<open>about j e\<close> by blast
      then show ?thesis by simp
    next
      case 2
      then show ?thesis using abt \<open>about j e\<close> by blast
    qed
  qed
  have 5: "\<forall>j crn err. EvCheck j crn (Inl err) \<in> set (new @ add) \<longrightarrow>
             courses s' ! j = courses st ! j"
  proof (intro allI impI)
    fix j crn err assume "EvCheck j crn (Inl err) \<in> set (new @ add)"
    then consider "EvCheck j crn (Inl err) \<in> set new" | "EvCheck j crn (Inl err) \<in> set add"
      by auto
    then show "courses s' ! j = courses st ! j"
    proof cases
      case 1
      then have "j < k" using isolated_earlier [OF iso] by blast
      moreover have "courses s ! j = courses st ! j" using 1 i by blast
      ultimately show ?thesis using other by simp
    next
      case 2
      have "about j (EvCheck j crn (Inl err))" by (simp add: about_def)
      then have "j = k" using 2 abt by blast
      moreover have "courses s' = courses s" using 2 failed by blast
      moreover have "courses s ! k = courses st ! k" using i by simp
      ultimately show ?thesis by simp
    qed
  qed
  have 6: "(\<forall>e\<in>set (new @ add). \<not> lookup_succeeded e) \<longrightarrow>
        courses s' = courses st \<and> remaining s' = remaining st \<and>
        (\<forall>e\<in>set (new @ add). \<forall>j. \<not> is_notify_of j e)"
  proof
    assume a: "\<forall>e\<in>set (new @ add). \<not> lookup_succeeded e"
    then have "\<forall>e\<in>set new. \<not> lookup_succeeded e" by simp
    then have old: "courses s = courses st \<and> remaining s = remaining st \<and>
        (\<forall>e\<in>set new. \<forall>j. \<not> is_notify_of j e)" using i by blast
    from a have "\<forall>e\<in>set add. \<not> lookup_succeeded e" by simp
    then have "courses s' = courses s \<and> remaining s' = remaining s \<and>
                 (\<forall>e\<in>set add. \<forall>j. \<not> is_notify_of j e)" using failed by blast
    then show "courses s' = courses st \<and> remaining s' = remaining st \<and>
        (\<forall>e\<in>set (new @ add). \<forall>j. \<not> is_notify_of j e)"
      using old by auto
  qed
  from 1 2 3 4 5 6 show ?thesis unfolding isolated_def by blast
qed

lemma isolated_step:
  assumes iso: "isolated k st s new" and k: "k < length (courses s)"
  shows "\<exists>new'. isolated (Suc k) st (poll_step E cfg a k s) new'"
  using k
proof (cases rule: poll_step_shape [of k s E cfg a])
  case skipped
  have "isolated (Suc k) st (poll_step E cfg a k s) (new @ [])"
    using iso by (rule isolated_extend) (simp_all add: skipped)
  then show ?thesis by blast
next
  case (unopened r)
  have "isolated (Suc k) st (poll_step E cfg a k s) (new @ [EvCheck k (CRN (courses s ! k)) r])"
    using iso unopened(4)
    by (rule isolated_extend) (auto simp: unopened(5,6) about_def)
  then show ?thesis by blast
next
  case opened
  have "isolated (Suc k) st (poll_step E cfg a k s)
          (new @ [EvCheck k (CRN (courses s ! k)) (Inr True)])"
    using iso opened(4)
    by (rule isolated_extend) (auto simp: opened(5) about_def)
  then show ?thesis by blast
next
  case (notified r)
  have "isolated (Suc k) st (poll_step E cfg a k s)
          (new @ [EvCheck k (CRN (courses s ! k)) (Inr True),
                  EvNotify k (Email cfg) ''VT Course Section Open!''
                        (''OPEN SEAT: '' @ Name (courses s ! k) @ '' (CRN: '' @
                         CRN (courses s ! k) @ '')'') r])"
    using iso notified(4)
    by (rule isolated_extend) (auto simp: notified(5) about_def)
  then show ?thesis by blast
qed

lemma fold_poll_step_isolated:
  assumes "k \<le> length (courses st)"
  shows "\<exists>new. isolated k st (fold (poll_step E cfg a) [0..<k] st) new"
  using assms
proof (induction k)
  case 0
  have "isolated 0 st st []" by (simp add: isolated_def)
  then show ?case by auto
next
  case (Suc k)
  then obtain new where iso: "isolated k st (fold (poll_step E cfg a) [0..<k] st) new"
    by auto
  then have "k < length (courses (fold (poll_step E cfg a) [0..<k] st))"
    using Suc.prems by (simp add: isolated_def)
  from isolated_step [OF iso this, of E cfg a] show ?case by simp
qed

lemma poll_cycle_isolated:
  "isolated (length (courses st)) st (poll_cycle E cfg a st)
     (drop (length (events st)) (events (poll_cycle E cfg a st)))"
proof -
  obtain new where iso: "isolated (length (courses st)) st (poll_cycle E cfg a st) new"
    using fold_poll_step_isolated [of "length (courses st)" st E cfg a]
    by (auto simp: poll_cycle_def)
  then have "new = drop (length (events st)) (events (poll_cycle E cfg a st))"
    by (simp add: isolated_def)
  then show ?thesis using iso by simp
qed

lemma check_of_mem:
  "(j, crn) \<in> set (concat (map check_of es)) \<Longrightarrow> \<exists>r. EvCheck j crn r \<in> set es"
proof (induction es)
  case Nil
  then show ?case by simp
next
  case (Cons e es)
  then show ?case by (cases e) auto
qed

section \<open>The polling loop\<close>

lemma Run_loop_running:
  assumes "\<forall>k<n. remaining (cycles (Suc k) E cfg a st) \<noteq> 0"
  shows "Run_loop n E cfg a st = (None, cycles n E cfg a st)"
  using assms
proof (induction n arbitrary: a st)
  case 0
  show ?case by simp
next
  case (Suc n)
  have first: "remaining (poll_cycle E cfg a st) \<noteq> 0"
    using Suc.prems [rule_format, of 0] by simp
  have "\<forall>k<n. remaining (cycles (Suc k) E cfg (a + 1) (poll_cycle E cfg a st)) \<noteq> 0"
    using Suc.prems by auto
  from Suc.IH [OF this] first show ?case by (simp add: Let_def)
qed

lemma Run_loop_returns:
  assumes "k < n" and "remaining (cycles (Suc k) E cfg a st) = 0"
    and "\<forall>j<k. remaining (cycles (Suc j) E cfg a st) \<noteq> 0"
  shows "Run_loop n E cfg a st = (Some None, println LineAllFound (cycles (Suc k) E cfg a st))"
  using assms
proof (induction n arbitrary: a st k)
  case 0
  then show ?case by simp
next
  case (Suc n)
  show ?case
  proof (cases k)
    case 0
    then show ?thesis using Suc.prems by (simp add: Let_def)
  next
    case (Suc k')
    have first: "remaining (poll_cycle E cfg a st) \<noteq> 0"
      using Suc.prems(3) [rule_format, of 0] Suc by simp
    have "k' < n" using Suc.prems(1) Suc by simp
    moreover have "remaining (cycles (Suc k') E cfg (a + 1) (poll_cycle E cfg a st)) = 0"
      using Suc.prems(2) Suc by simp
    moreover have "\<forall>j<k'. remaining (cycles (Suc j) E cfg (a + 1) (poll_cycle E cfg a st)) \<noteq> 0"
      using Suc.prems(3) Suc by auto
    ultimately have "Run_loop n E cfg (a + 1) (poll_cycle E cfg a st) =
      (Some None, println LineAllFound (cycles (Suc k') E cfg (a + 1) (poll_cycle E cfg a st)))"
      by (rule Suc.IH)
    then show ?thesis using first Suc by (simp add: Let_def)
  qed
qed

lemma Run_loop_success_iff:
  "(fst (Run_loop n E cfg a st) = Some None) =
     (\<exists>k<n. remaining (cycles (Suc k) E cfg a st) = 0)"
proof
  assume "fst (Run_loop n E cfg a st) = Some None"
  then show "\<exists>k<n. remaining (cycles (Suc k) E cfg a st) = 0"
    using Run_loop_running [of n E cfg a st] by fastforce
next
  assume ex: "\<exists>k<n. remaining (cycles (Suc k) E cfg a st) = 0"
  define m where "m = (LEAST k. k < n \<and> remaining (cycles (Suc k) E cfg a st) = 0)"
  from ex have m: "m < n \<and> remaining (cycles (Suc m) E cfg a st) = 0"
    unfolding m_def by (metis (mono_tags, lifting) LeastI)
  have "\<forall>j<m. remaining (cycles (Suc j) E cfg a st) \<noteq> 0"
  proof (intro allI impI)
    fix j assume "j < m"
    then have "\<not> (j < n \<and> remaining (cycles (Suc j) E cfg a st) = 0)"
      unfolding m_def by (rule not_less_Least)
    moreover have "j < n" using \<open>j < m\<close> m by simp
    ultimately show "remaining (cycles (Suc j) E cfg a st) \<noteq> 0" by simp
  qed
  with m show "fst (Run_loop n E cfg a st) = Some None"
    using Run_loop_returns [of m n E cfg a st] by simp
qed

lemma Run_success_iff:
  "(fst (Run n E opts) = Some None) =
     (\<exists>c. loadConfig E (ConfigPath opts) = Inr c \<and> courses (loop_entry E c) \<noteq> [] \<and>
          (\<exists>k<n. remaining (cycles (Suc k) E c 1 (loop_entry E c)) = 0))"
proof (cases "loadConfig E (ConfigPath opts)")
  case (Inl err)
  then show ?thesis by (simp add: Run_load_failed)
next
  case (Inr c)
  show ?thesis
  proof (cases "courses (init_courses E c (CRNs c) start) = []")
    case True
    then show ?thesis using Inr by (simp add: Run_no_courses loop_entry_fields)
  next
    case False
    then show ?thesis
      using Inr Run_loop_success_iff [of n E c 1 "loop_entry E c"]
      by (simp add: Run_polls loop_entry_fields)
  qed
qed

lemma Run_Sent: "Sent (snd (Run fuel E opts)) = []"
proof (rule Run_invariant)
  show "Sent start = []" by (simp add: start_fields)
next
  fix c
  show "Sent (init_courses E c (CRNs c) start) = []"
    using init_courses_start [of E c "CRNs c"] by blast
next
  fix c
  show "Sent (loop_entry E c) = []"
    using init_courses_start [of E c "CRNs c"] by (simp add: loop_entry_fields)
next
  fix c b j and s :: state
  assume "Sent s = []"
  then show "Sent (poll_step E c b j s) = []" by (simp add: poll_step_Sent)
next
  fix s :: state
  assume "Sent s = []"
  then show "Sent (println LineAllFound s) = []" by (simp add: println_fields)
qed

lemma Run_ignores_sender: "Run fuel E (opts\<lparr>EmailSender := s\<rparr>) = Run fuel E opts"
  by (simp add: Run_def Let_def split: sum.splits)

lemma Run_loop_returned:
  "fst (Run_loop n E cfg a st) = Some r \<Longrightarrow>
   r = None \<and> remaining (snd (Run_loop n E cfg a st)) = 0"
proof (induction n arbitrary: a st)
  case 0
  then show ?case by simp
next
  case (Suc n)
  show ?case
  proof (cases "remaining (poll_cycle E cfg a st) = 0")
    case True
    then show ?thesis using Suc.prems by (auto simp: Let_def println_fields)
  next
    case False
    then show ?thesis using Suc by (simp add: Let_def)
  qed
qed

lemma Run_loop_length: "length (courses (snd (Run_loop n E cfg a st))) = length (courses st)"
proof (rule Run_loop_invariant)
  show "length (courses st) = length (courses st)" ..
next
  fix b j and s :: state
  assume "length (courses s) = length (courses st)"
  then show "length (courses (poll_step E cfg b j s)) = length (courses st)"
    by (simp add: poll_step_length)
next
  fix s :: state
  assume "length (courses s) = length (courses st)"
  then show "length (courses (println LineAllFound s)) = length (courses st)"
    by (simp add: println_fields)
qed

lemma Run_remaining_pending:
  "remaining (snd (Run fuel E opts)) = pending_count (snd (Run fuel E opts))"
proof (rule Run_invariant)
  show "remaining start = pending_count start"
    by (simp add: pending_count_def start_fields)
next
  fix c
  assume "courses (init_courses E c (CRNs c) start) = []"
  moreover have "remaining (init_courses E c (CRNs c) start) = 0"
    using init_courses_start [of E c "CRNs c"] by blast
  ultimately show "remaining (init_courses E c (CRNs c) start) =
        pending_count (init_courses E c (CRNs c) start)"
    by (simp add: pending_count_def)
next
  fix c
  show "remaining (loop_entry E c) = pending_count (loop_entry E c)"
    using init_courses_count [of E c "CRNs c"]
    by (simp add: loop_entry_fields pending_count_def)
next
  fix c b j s
  assume "remaining s = pending_count s" "j < length (courses s)"
  then show "remaining (poll_step E c b j s) = pending_count (poll_step E c b j s)"
    by (simp add: poll_step_counts)
next
  fix s
  assume "remaining s = pending_count s"
  then show "remaining (println LineAllFound s) = pending_count (println LineAllFound s)"
    by (simp add: pending_count_println println_fields)
qed

section \<open>More of the examples, evaluated\<close>

lemma demo_down_cycle:
  "poll_cycle demo_env_down demo_config 1 demo_resolved =
     demo_resolved
       \<lparr>posts := posts demo_resolved @
                  [(DefaultTimetableURL, buildPayload demo_config ''222'' True),
                   (DefaultTimetableURL, buildPayload demo_config ''333'' True)],
        events := events demo_resolved @
                  [EvCheck 0 ''222'' (Inl (RequestFailed ''connection refused'')),
                   EvCheck 1 ''333'' (Inl (RequestFailed ''connection refused''))],
        printed := printed demo_resolved @
                   [LineChecking 1 ''222'',
                    LineErrorChecking ''222'' (RequestFailed ''connection refused''),
                    LineChecking 1 ''333'',
                    LineErrorChecking ''333'' (RequestFailed ''connection refused'')]\<rparr>"
  by (simp add: poll_cycle_def poll_step_def checkSectionOpen_def fetchDocument_def
      http_PostForm_def demo_getBaseURL demo_env_down_def demo_env_def
      println_def record_event_def demo_resolved_def Let_def upt_rec)

lemma demo_entry: "loop_entry demo_env demo_config = demo_resolved"
  by (simp add: loop_entry_def demo_init Let_def) (simp add: demo_resolved_def)

lemma quiet_loadConfig: "loadConfig quiet_env ''config.json'' = Inr quiet_config"
  by (simp add: loadConfig_def quiet_env_def quiet_config_def Let_def)

lemma quiet_fields:
  "getBaseURL quiet_config = DefaultTimetableURL" "BaseURL quiet_config = DefaultTimetableURL"
  "DefaultTimetableURL \<noteq> []" "CRNs quiet_config = [''222'']"
  by (simp_all add: getBaseURL_def quiet_config_def DefaultTimetableURL_def)

lemma quiet_entry:
  "courses (loop_entry quiet_env quiet_config) =
     [\<lparr>CRN = ''222'', Name = ''Algebra'', Found = False\<rparr>] \<and>
   remaining (loop_entry quiet_env quiet_config) = 1"
  by (simp add: loop_entry_def quiet_fields getCourseName_def fetchDocument_def
      http_PostForm_def quiet_env_def buildPayload_def page_def
      println_def record_event_def strings_TrimSpace_def isSpace_def start_def Let_def)

lemma quiet_lookup:
  "CRN (courses s ! 0) = ''222'' \<Longrightarrow> lookup_result quiet_env quiet_config a 0 s = Inr False"
  by (simp add: lookup_result_def checkSectionOpen_def fetchDocument_def http_PostForm_def
      quiet_fields quiet_env_def buildPayload_def page_def Let_def)

lemma quiet_cycle:
  assumes "courses s = [\<lparr>CRN = ''222'', Name = ''Algebra'', Found = False\<rparr>]"
    and "remaining s = 1"
  shows "courses (poll_cycle quiet_env quiet_config a s) = courses s \<and>
         remaining (poll_cycle quiet_env quiet_config a s) = 1"
proof -
  have "poll_cycle quiet_env quiet_config a s = poll_step quiet_env quiet_config a 0 s"
    using assms by (simp add: poll_cycle_def)
  moreover have "lookup_result quiet_env quiet_config a 0 s = Inr False"
    using assms by (simp add: quiet_lookup)
  ultimately show ?thesis
    using assms by (simp add: poll_step_courses poll_step_remaining)
qed

lemma quiet_loop:
  assumes "courses s = [\<lparr>CRN = ''222'', Name = ''Algebra'', Found = False\<rparr>]"
    and "remaining s = 1"
  shows "fst (Run_loop n quiet_env quiet_config a s) = None \<and>
         courses (snd (Run_loop n quiet_env quiet_config a s)) = courses s"
  using assms
proof (induction n arbitrary: a s)
  case 0
  show ?case by simp
next
  case (Suc n)
  note c = quiet_cycle [OF Suc.prems, of a]
  have "fst (Run_loop n quiet_env quiet_config (a + 1)
               (poll_cycle quiet_env quiet_config a s)) = None \<and>
        courses (snd (Run_loop n quiet_env quiet_config (a + 1)
               (poll_cycle quiet_env quiet_config a s))) =
          courses (poll_cycle quiet_env quiet_config a s)"
    by (rule Suc.IH) (simp_all add: c Suc.prems)
  then show ?case using c by (simp add: Let_def)
qed

section \<open>At most one notification for a course\<close>

text \<open>
  Claim C1. Over the whole session at most one notification is attempted for a course, and
  only directly after the lookup that found it open (its transition from pending to
  found), which happens at most once; the \<open>Found\<close> flag is set exactly when that lookup
  has happened; and once it is set it stays set at every later point of the session,
  where nothing more is recorded about the course: it is neither looked up nor notified
  again.
\<close>

theorem notified_at_most_once:
  assumes "Run fuel E opts = (r, st)" and "Run (fuel + n) E opts = (r', st')"
  shows "length (filter (is_notify_of i) (events st)) \<le> 1 \<and>
         length (filter (is_opening_of i) (events st)) \<le> 1 \<and>
         (\<forall>k<length (events st). is_notify_of i (events st ! k) \<longrightarrow>
              0 < k \<and> is_opening_of i (events st ! (k - 1))) \<and>
         (i < length (courses st) \<longrightarrow>
              Found (courses st ! i) = (\<exists>e\<in>set (events st). is_opening_of i e)) \<and>
         (i < length (courses st) \<and> Found (courses st ! i) \<longrightarrow>
              i < length (courses st') \<and> Found (courses st' ! i) \<and>
              filter (about i) (events st') = filter (about i) (events st))"
proof -
  have ok: "history_ok st"
    using Run_history_ok [of fuel E opts] assms(1) by simp
  have later: "settled i st st'" if "i < length (courses st)" "Found (courses st ! i)"
    using Run_settled [of i fuel E opts n] that assms by simp
  have 1: "length (filter (is_notify_of i) (events st)) \<le> 1"
    and 2: "length (filter (is_opening_of i) (events st)) \<le> 1"
    using ok unfolding history_ok_def by blast+
  have 3: "\<forall>k<length (events st). is_notify_of i (events st ! k) \<longrightarrow>
              0 < k \<and> is_opening_of i (events st ! (k - 1))"
    using ok unfolding history_ok_def by blast
  have 4: "Found (courses st ! i) = (\<exists>e\<in>set (events st). is_opening_of i e)"
    if "i < length (courses st)"
    using ok that unfolding history_ok_def by blast
  have 5: "i < length (courses st') \<and> Found (courses st' ! i) \<and>
              filter (about i) (events st') = filter (about i) (events st)"
    if "i < length (courses st) \<and> Found (courses st ! i)"
    using later that by (simp add: settled_def)
  from 1 2 3 4 5 show ?thesis by blast
qed

theorem notified_at_most_once_witness:
  "Run (Suc 0) demo_env demo_options = (None, demo_cycle1) \<and>
   Run (Suc 0 + 1) demo_env demo_options = (Some None, println LineAllFound demo_cycle2) \<and>
   filter (is_notify_of 1) (events demo_cycle1) =
     [EvNotify 1 ''me@vt.edu'' ''VT Course Section Open!'' ''OPEN SEAT: Biology (CRN: 333)''
        (Some (ResendError ''rate limited''))] \<and>
   length (filter (is_notify_of 1) (events demo_cycle1)) \<le> 1 \<and>
   is_notify_of 1 (events demo_cycle1 ! 5) \<and> is_opening_of 1 (events demo_cycle1 ! (5 - 1)) \<and>
   Found (courses demo_cycle1 ! 1) \<and>
   Found (courses (println LineAllFound demo_cycle2) ! 1) \<and>
   filter (about 1) (events (println LineAllFound demo_cycle2)) =
     [EvCheck 1 ''333'' (Inr True),
      EvNotify 1 ''me@vt.edu'' ''VT Course Section Open!'' ''OPEN SEAT: Biology (CRN: 333)''
        (Some (ResendError ''rate limited''))]"
proof -
  note t = notified_at_most_once [OF demo_Run_1 demo_Run_2', of 1]
  have f: "filter (is_notify_of 1) (events demo_cycle1) =
     [EvNotify 1 ''me@vt.edu'' ''VT Course Section Open!'' ''OPEN SEAT: Biology (CRN: 333)''
        (Some (ResendError ''rate limited''))]"
    and a: "filter (about 1) (events demo_cycle1) =
     [EvCheck 1 ''333'' (Inr True),
      EvNotify 1 ''me@vt.edu'' ''VT Course Section Open!'' ''OPEN SEAT: Biology (CRN: 333)''
        (Some (ResendError ''rate limited''))]"
    and n: "is_notify_of 1 (events demo_cycle1 ! 5)"
    and k: "5 < length (events demo_cycle1)"
    and i: "1 < length (courses demo_cycle1)"
    and c: "Found (courses demo_cycle1 ! 1)"
    by (simp_all add: demo_cycle1_def demo_resolved_def about_def)
  from t have 1: "length (filter (is_notify_of 1) (events demo_cycle1)) \<le> 1" by blast
  from t n k have 2: "is_opening_of 1 (events demo_cycle1 ! (5 - 1))" by blast
  from t i c have 3: "Found (courses (println LineAllFound demo_cycle2) ! 1) \<and>
     filter (about 1) (events (println LineAllFound demo_cycle2)) =
     filter (about 1) (events demo_cycle1)" by blast
  from demo_Run_1 demo_Run_2' f 1 n 2 c 3 a show ?thesis by simp
qed

section \<open>Failed lookups\<close>

text \<open>
  Claim C2. A step whose lookup fails leaves the courses and the counter unchanged and
  sends nothing. Within a cycle every course that was pending at its start is looked
  up, whatever the other lookups return; a course whose lookup failed has the status it
  had; and a cycle in which no lookup succeeds changes no course, leaves the counter and
  attempts no notification.
\<close>

theorem lookup_failure_is_isolated:
  "(i < length (courses st) \<and> lookup_result E cfg a i st = Inl err \<longrightarrow>
      courses (poll_step E cfg a i st) = courses st \<and>
      remaining (poll_step E cfg a i st) = remaining st \<and>
      (\<forall>e\<in>set (drop (length (events st)) (events (poll_step E cfg a i st))).
         \<forall>j. \<not> is_notify_of j e)) \<and>
   (\<forall>j<length (courses st). \<not> Found (courses st ! j) \<longrightarrow>
      (\<exists>r. EvCheck j (CRN (courses st ! j)) r \<in>
             set (drop (length (events st)) (events (poll_cycle E cfg a st))))) \<and>
   (\<forall>j crn e. EvCheck j crn (Inl e) \<in>
               set (drop (length (events st)) (events (poll_cycle E cfg a st))) \<longrightarrow>
      courses (poll_cycle E cfg a st) ! j = courses st ! j) \<and>
   ((\<forall>e\<in>set (drop (length (events st)) (events (poll_cycle E cfg a st))).
       \<not> lookup_succeeded e) \<longrightarrow>
      courses (poll_cycle E cfg a st) = courses st \<and>
      remaining (poll_cycle E cfg a st) = remaining st \<and>
      (\<forall>e\<in>set (drop (length (events st)) (events (poll_cycle E cfg a st))).
         \<forall>j. \<not> is_notify_of j e))"
proof -
  let ?new = "drop (length (events st)) (events (poll_cycle E cfg a st))"
  have step: "courses (poll_step E cfg a i st) = courses st \<and>
      remaining (poll_step E cfg a i st) = remaining st \<and>
      (\<forall>e\<in>set (drop (length (events st)) (events (poll_step E cfg a i st))).
         \<forall>j. \<not> is_notify_of j e)"
    if i: "i < length (courses st)" and l: "lookup_result E cfg a i st = Inl err"
    using i
  proof (cases rule: poll_step_shape [of i st E cfg a])
    case skipped
    then show ?thesis by simp
  next
    case (unopened r)
    then show ?thesis by simp
  next
    case opened
    then show ?thesis using l by simp
  next
    case (notified r)
    then show ?thesis using l by simp
  qed
  have all: "\<exists>r. EvCheck j (CRN (courses st ! j)) r \<in> set ?new"
    if "j < length (courses st)" "\<not> Found (courses st ! j)" for j
  proof -
    have "j \<in> set (pending_indices st)"
      using that by (simp add: pending_indices_def)
    then have "(j, CRN (courses st ! j)) \<in> set (concat (map check_of ?new))"
      by (simp only: poll_cycle_lookups) simp
    then show ?thesis by (rule check_of_mem)
  qed
  note iso = poll_cycle_isolated [of st E cfg a, unfolded isolated_def]
  have one: "courses (poll_cycle E cfg a st) ! j = courses st ! j"
    if "EvCheck j crn (Inl e) \<in> set ?new" for j crn e
    using iso that by blast
  have none: "courses (poll_cycle E cfg a st) = courses st \<and>
      remaining (poll_cycle E cfg a st) = remaining st \<and>
      (\<forall>e\<in>set ?new. \<forall>j. \<not> is_notify_of j e)"
    if "\<forall>e\<in>set ?new. \<not> lookup_succeeded e"
    using iso that by blast
  from step all one none show ?thesis by blast
qed

theorem lookup_failure_is_isolated_witness:
  "lookup_result demo_env demo_config 1 0 demo_resolved =
     Inl (RequestFailed ''connection refused'') \<and>
   courses (poll_step demo_env demo_config 1 0 demo_resolved) = courses demo_resolved \<and>
   remaining (poll_step demo_env demo_config 1 0 demo_resolved) = remaining demo_resolved \<and>
   drop 3 (events (poll_cycle demo_env demo_config 1 demo_resolved)) =
     [EvCheck 0 ''222'' (Inl (RequestFailed ''connection refused'')),
      EvCheck 1 ''333'' (Inr True),
      EvNotify 1 ''me@vt.edu'' ''VT Course Section Open!'' ''OPEN SEAT: Biology (CRN: 333)''
        (Some (ResendError ''rate limited''))] \<and>
   courses (poll_cycle demo_env demo_config 1 demo_resolved) ! 0 = courses demo_resolved ! 0 \<and>
   (\<exists>r. EvCheck 1 ''333'' r \<in>
          set (drop 3 (events (poll_cycle demo_env demo_config 1 demo_resolved)))) \<and>
   drop 3 (events (poll_cycle demo_env_down demo_config 1 demo_resolved)) =
     [EvCheck 0 ''222'' (Inl (RequestFailed ''connection refused'')),
      EvCheck 1 ''333'' (Inl (RequestFailed ''connection refused''))] \<and>
   courses (poll_cycle demo_env_down demo_config 1 demo_resolved) = courses demo_resolved \<and>
   remaining (poll_cycle demo_env_down demo_config 1 demo_resolved) = 2"
proof -
  note t = lookup_failure_is_isolated
    [of 0 demo_resolved demo_env demo_config 1 "RequestFailed ''connection refused''"]
  note d = lookup_failure_is_isolated
    [of 0 demo_resolved demo_env_down demo_config 1 "RequestFailed ''connection refused''"]
  have l: "length (events demo_resolved) = 3" "0 < length (courses demo_resolved)"
    "remaining demo_resolved = 2"
    by (simp_all add: demo_resolved_def)
  have r: "lookup_result demo_env demo_config 1 0 demo_resolved =
     Inl (RequestFailed ''connection refused'')"
    by (simp add: lookup_result_def checkSectionOpen_def fetchDocument_def
      http_PostForm_def demo_getBaseURL demo_env_def demo_network_def
      println_def demo_resolved_def Let_def)
  from t l r have 1:
    "courses (poll_step demo_env demo_config 1 0 demo_resolved) = courses demo_resolved \<and>
     remaining (poll_step demo_env demo_config 1 0 demo_resolved) = remaining demo_resolved"
    by blast
  have 2: "drop 3 (events (poll_cycle demo_env demo_config 1 demo_resolved)) =
     [EvCheck 0 ''222'' (Inl (RequestFailed ''connection refused'')),
      EvCheck 1 ''333'' (Inr True),
      EvNotify 1 ''me@vt.edu'' ''VT Course Section Open!'' ''OPEN SEAT: Biology (CRN: 333)''
        (Some (ResendError ''rate limited''))]"
    by (simp add: demo_first_cycle demo_cycle1_def l)
  have "EvCheck 0 ''222'' (Inl (RequestFailed ''connection refused'')) \<in>
        set (drop (length (events demo_resolved))
               (events (poll_cycle demo_env demo_config 1 demo_resolved)))"
    by (simp add: l 2)
  with t have 3:
    "courses (poll_cycle demo_env demo_config 1 demo_resolved) ! 0 = courses demo_resolved ! 0"
    by blast
  have p: "1 < length (courses demo_resolved)" "\<not> Found (courses demo_resolved ! 1)"
    "CRN (courses demo_resolved ! 1) = ''333''"
    by (simp_all add: demo_resolved_def)
  with t l have 6: "\<exists>r. EvCheck 1 ''333'' r \<in>
          set (drop 3 (events (poll_cycle demo_env demo_config 1 demo_resolved)))"
    by metis
  have 4: "drop 3 (events (poll_cycle demo_env_down demo_config 1 demo_resolved)) =
     [EvCheck 0 ''222'' (Inl (RequestFailed ''connection refused'')),
      EvCheck 1 ''333'' (Inl (RequestFailed ''connection refused''))]"
    by (simp add: demo_down_cycle l)
  then have "\<forall>e\<in>set (drop (length (events demo_resolved))
               (events (poll_cycle demo_env_down demo_config 1 demo_resolved))).
       \<not> lookup_succeeded e"
    by (simp add: l)
  with d have 5:
    "courses (poll_cycle demo_env_down demo_config 1 demo_resolved) = courses demo_resolved \<and>
     remaining (poll_cycle demo_env_down demo_config 1 demo_resolved) = remaining demo_resolved"
    by blast
  from r 1 2 3 4 5 6 l show ?thesis by simp
qed

section \<open>Cancellation\<close>

text \<open>
  Claim C3, as amended. \<^verbatim>\<open>Run\<close> has no outcome for a cancelled session: when it returns, it
  returns the error of a configuration that could not be loaded, the error for no valid
  CRNs, or success with every course found. So it never returns while a course is
  pending.
\<close>

theorem returns_only_when_all_found:
  assumes "Run fuel E opts = (Some r, st)"
  shows "(\<exists>e. r = Some (LoadConfigFailed e) \<and> st = start) \<or>
         (r = Some NoValidCRNs \<and> courses st = []) \<or>
         (r = None \<and> courses st \<noteq> [] \<and> (\<forall>c\<in>set (courses st). Found c))"
proof (cases "loadConfig E (ConfigPath opts)")
  case (Inl err)
  then show ?thesis using assms by (auto simp: Run_load_failed)
next
  case (Inr cfg)
  show ?thesis
  proof (cases "courses (init_courses E cfg (CRNs cfg) start) = []")
    case True
    then show ?thesis using Inr assms by (auto simp: Run_no_courses)
  next
    case False
    have run: "Run fuel E opts = Run_loop fuel E cfg 1 (loop_entry E cfg)"
      using Inr False by (rule Run_polls)
    have loop: "Run_loop fuel E cfg 1 (loop_entry E cfg) = (Some r, st)"
      using run assms by simp
    then have "fst (Run_loop fuel E cfg 1 (loop_entry E cfg)) = Some r" by simp
    from Run_loop_returned [OF this] have r: "r = None" and z: "remaining st = 0"
      using loop by simp_all
    have "pending_count st = 0"
      using Run_remaining_pending [of fuel E opts] assms z by simp
    then have found: "\<forall>c\<in>set (courses st). Found c"
      by (simp add: pending_count_def filter_empty_conv)
    have "length (courses st) = length (courses (loop_entry E cfg))"
      using Run_loop_length [of fuel E cfg 1 "loop_entry E cfg"] loop by simp
    then have "courses st \<noteq> []" using False by (auto simp: loop_entry_fields)
    with r found show ?thesis by simp
  qed
qed

theorem returns_only_when_all_found_witness:
  "Run (Suc (Suc 0)) demo_env demo_options = (Some None, println LineAllFound demo_cycle2) \<and>
   courses (println LineAllFound demo_cycle2) =
     [\<lparr>CRN = ''222'', Name = ''Algebra'', Found = True\<rparr>,
      \<lparr>CRN = ''333'', Name = ''Biology'', Found = True\<rparr>] \<and>
   list_all Found (courses (println LineAllFound demo_cycle2))"
proof -
  have c: "courses (println LineAllFound demo_cycle2) =
     [\<lparr>CRN = ''222'', Name = ''Algebra'', Found = True\<rparr>,
      \<lparr>CRN = ''333'', Name = ''Biology'', Found = True\<rparr>]"
    by (simp add: println_fields demo_cycle2_def)
  from returns_only_when_all_found [OF demo_Run_2 [of 0]]
  have "list_all Found (courses (println LineAllFound demo_cycle2))"
    by (simp add: list_all_iff)
  with demo_Run_2 [of 0] c show ?thesis by simp
qed

text \<open>
  Claim C3 as stated fails: where the open-only search never lists the section, \<^verbatim>\<open>Run\<close>
  has not returned after any number of cycles, whatever the caller passes as sender (the
  only field of the options besides the path), and its one course is still pending.
\<close>

theorem no_cancelled_outcome:
  "\<forall>fuel sender.
     fst (Run fuel quiet_env \<lparr>ConfigPath = ''config.json'', EmailSender = sender\<rparr>) = None \<and>
     courses (snd (Run fuel quiet_env \<lparr>ConfigPath = ''config.json'', EmailSender = sender\<rparr>)) =
       [\<lparr>CRN = ''222'', Name = ''Algebra'', Found = False\<rparr>]"
proof (intro allI)
  fix fuel sender
  let ?opts = "\<lparr>ConfigPath = ''config.json'', EmailSender = sender\<rparr>"
  have l: "loadConfig quiet_env (ConfigPath ?opts) = Inr quiet_config"
    by (simp add: quiet_loadConfig)
  have "courses (init_courses quiet_env quiet_config (CRNs quiet_config) start) \<noteq> []"
    using quiet_entry by (simp add: loop_entry_fields)
  with l have run: "Run fuel quiet_env ?opts =
      Run_loop fuel quiet_env quiet_config 1 (loop_entry quiet_env quiet_config)"
    by (rule Run_polls)
  show "fst (Run fuel quiet_env ?opts) = None \<and>
        courses (snd (Run fuel quiet_env ?opts)) =
          [\<lparr>CRN = ''222'', Name = ''Algebra'', Found = False\<rparr>]"
    using quiet_loop [of "loop_entry quiet_env quiet_config" fuel 1] quiet_entry run by simp
qed

section \<open>When the loop returns\<close>

text \<open>
  Claim C4. The loop returns, with success, exactly when \<open>remaining\<close> is zero at the test
  after a completed cycle: if the counter is non-zero after each of the first \<open>n\<close> cycles
  the loop is still running after them, whatever the lookups returned; it returns after
  the first cycle that leaves the counter at zero; and \<^verbatim>\<open>Run\<close> returns success in no other
  way.
\<close>

theorem loop_returns_iff_none_remaining:
  "((\<forall>k<n. remaining (cycles (Suc k) E cfg a st) \<noteq> 0) \<longrightarrow>
      Run_loop n E cfg a st = (None, cycles n E cfg a st)) \<and>
   (k < n \<and> remaining (cycles (Suc k) E cfg a st) = 0 \<and>
    (\<forall>j<k. remaining (cycles (Suc j) E cfg a st) \<noteq> 0) \<longrightarrow>
      Run_loop n E cfg a st = (Some None, println LineAllFound (cycles (Suc k) E cfg a st))) \<and>
   (fst (Run_loop n E cfg a st) = Some None) =
     (\<exists>k<n. remaining (cycles (Suc k) E cfg a st) = 0) \<and>
   (fst (Run_loop n E cfg a st) = None) =
     (\<forall>k<n. remaining (cycles (Suc k) E cfg a st) \<noteq> 0) \<and>
   (fst (Run n E opts) = Some None) =
     (\<exists>c. loadConfig E (ConfigPath opts) = Inr c \<and> courses (loop_entry E c) \<noteq> [] \<and>
          (\<exists>k<n. remaining (cycles (Suc k) E c 1 (loop_entry E c)) = 0))"
proof -
  have running: "Run_loop n E cfg a st = (None, cycles n E cfg a st)"
    if "\<forall>k<n. remaining (cycles (Suc k) E cfg a st) \<noteq> 0"
    using that by (rule Run_loop_running)
  have returns: "Run_loop n E cfg a st =
      (Some None, println LineAllFound (cycles (Suc k) E cfg a st))"
    if "k < n \<and> remaining (cycles (Suc k) E cfg a st) = 0 \<and>
        (\<forall>j<k. remaining (cycles (Suc j) E cfg a st) \<noteq> 0)"
    using that Run_loop_returns [of k n E cfg a st] by blast
  note iff1 = Run_loop_success_iff [of n E cfg a st]
  have iff2: "(fst (Run_loop n E cfg a st) = None) =
     (\<forall>k<n. remaining (cycles (Suc k) E cfg a st) \<noteq> 0)"
    using iff1 Run_loop_result [of n E cfg a st] by auto
  note iff3 = Run_success_iff [of n E opts]
  from running returns iff1 iff2 iff3 show ?thesis by blast
qed

theorem loop_returns_iff_none_remaining_witness:
  "cycles (Suc 0) demo_env demo_config 1 demo_resolved = demo_cycle1 \<and>
   remaining demo_cycle1 = 1 \<and>
   Run_loop (Suc 0) demo_env demo_config 1 demo_resolved = (None, demo_cycle1) \<and>
   cycles (Suc (Suc 0)) demo_env demo_config 1 demo_resolved = demo_cycle2 \<and>
   remaining demo_cycle2 = 0 \<and>
   Run_loop (Suc (Suc 0)) demo_env demo_config 1 demo_resolved =
     (Some None, println LineAllFound demo_cycle2) \<and>
   fst (Run (Suc (Suc 0)) demo_env demo_options) = Some None"
proof -
  have c1: "cycles (Suc 0) demo_env demo_config 1 demo_resolved = demo_cycle1"
    and c2: "cycles (Suc (Suc 0)) demo_env demo_config 1 demo_resolved = demo_cycle2"
    by (simp_all add: demo_first_cycle demo_second_cycle)
  have r: "remaining demo_cycle1 = 1" "remaining demo_cycle2 = 0"
    by (simp_all add: demo_cycle1_def demo_cycle2_def)
  note t1 = loop_returns_iff_none_remaining
    [of "Suc 0" demo_env demo_config 1 demo_resolved 0 demo_options]
  note t2 = loop_returns_iff_none_remaining
    [of "Suc (Suc 0)" demo_env demo_config 1 demo_resolved "Suc 0" demo_options]
  have "\<forall>k<Suc 0. remaining (cycles (Suc k) demo_env demo_config 1 demo_resolved) \<noteq> 0"
    using c1 r by simp
  with t1 have 1: "Run_loop (Suc 0) demo_env demo_config 1 demo_resolved = (None, demo_cycle1)"
    using c1 by simp
  have "Suc 0 < Suc (Suc 0) \<and>
        remaining (cycles (Suc (Suc 0)) demo_env demo_config 1 demo_resolved) = 0 \<and>
        (\<forall>j<Suc 0. remaining (cycles (Suc j) demo_env demo_config 1 demo_resolved) \<noteq> 0)"
    using c1 c2 r by simp
  with t2 have 2: "Run_loop (Suc (Suc 0)) demo_env demo_config 1 demo_resolved =
     (Some None, println LineAllFound demo_cycle2)"
    using c2 by simp
  have "loadConfig demo_env (ConfigPath demo_options) = Inr demo_config \<and>
        courses (loop_entry demo_env demo_config) \<noteq> [] \<and>
        (\<exists>k<Suc (Suc 0). remaining (cycles (Suc k) demo_env demo_config 1
                                        (loop_entry demo_env demo_config)) = 0)"
    using c2 r by (auto simp: demo_options_def demo_loadConfig demo_entry demo_resolved_def)
  then have 3: "fst (Run (Suc (Suc 0)) demo_env demo_options) = Some None"
    using t2 by blast
  from c1 c2 r 1 2 3 show ?thesis by simp
qed

section \<open>The remaining counter\<close>

text \<open>
  Claim C5. At every point of the session \<open>remaining\<close> is the number of courses whose
  \<open>Found\<close> flag is false: it holds whenever \<^verbatim>\<open>Run\<close> is observed, it starts at the number of
  resolved courses, every step of the polling loop keeps it, and a step decrements the
  counter exactly when it sets the flag of its course.
\<close>

theorem remaining_counts_pending:
  "remaining (snd (Run fuel E opts)) = pending_count (snd (Run fuel E opts)) \<and>
   remaining (snd (Run 0 E opts)) = int (length (courses (snd (Run 0 E opts)))) \<and>
   (i < length (courses st) \<longrightarrow>
      remaining (poll_step E cfg a i st) =
        remaining st - (if \<not> Found (courses st ! i) \<and> Found (courses (poll_step E cfg a i st) ! i)
                        then 1 else 0) \<and>
      (remaining st = pending_count st \<longrightarrow>
         remaining (poll_step E cfg a i st) = pending_count (poll_step E cfg a i st)))"
proof -
  have run: "remaining (snd (Run fuel E opts)) = pending_count (snd (Run fuel E opts))"
    by (rule Run_remaining_pending)
  have entry: "remaining (snd (Run 0 E opts)) = int (length (courses (snd (Run 0 E opts))))"
  proof (cases "loadConfig E (ConfigPath opts)")
    case (Inl err)
    then show ?thesis by (simp add: Run_load_failed start_fields)
  next
    case (Inr c)
    show ?thesis
    proof (cases "courses (init_courses E c (CRNs c) start) = []")
      case True
      moreover have "remaining (init_courses E c (CRNs c) start) = 0"
        using init_courses_start [of E c "CRNs c"] by blast
      ultimately show ?thesis using Inr by (simp add: Run_no_courses)
    next
      case False
      then show ?thesis using Inr by (simp add: Run_polls loop_entry_fields)
    qed
  qed
  have dec: "remaining (poll_step E cfg a i st) =
        remaining st - (if \<not> Found (courses st ! i) \<and> Found (courses (poll_step E cfg a i st) ! i)
                        then 1 else 0)" if "i < length (courses st)"
    using that by (simp add: poll_step_remaining poll_step_courses)
  have keep: "remaining (poll_step E cfg a i st) = pending_count (poll_step E cfg a i st)"
    if "i < length (courses st)" "remaining st = pending_count st"
    using that by (rule poll_step_counts)
  from run entry dec keep show ?thesis by blast
qed

theorem remaining_counts_pending_witness:
  "remaining (snd (Run (Suc 0) demo_env demo_options)) = 1 \<and>
   pending_count (snd (Run (Suc 0) demo_env demo_options)) = 1 \<and>
   remaining (snd (Run 0 demo_env demo_options)) = 2 \<and>
   (0::nat) < length (courses demo_cycle1) \<and>
   remaining demo_cycle1 = 1 \<and> pending_count demo_cycle1 = 1 \<and>
   remaining (poll_step demo_env demo_config 2 0 demo_cycle1) = 0 \<and>
   pending_count (poll_step demo_env demo_config 2 0 demo_cycle1) = 0"
proof -
  note t = remaining_counts_pending [of "Suc 0" demo_env demo_options 0 demo_cycle1 demo_config 2]
  have i: "(0::nat) < length (courses demo_cycle1)"
    and r: "remaining demo_cycle1 = 1"
    and p: "pending_count demo_cycle1 = 1"
    and f: "\<not> Found (courses demo_cycle1 ! 0)"
    by (simp_all add: demo_cycle1_def pending_count_def)
  have o: "Found (courses (poll_step demo_env demo_config 2 0 demo_cycle1) ! 0)"
    by (simp add: poll_step_def checkSectionOpen_def fetchDocument_def
      http_PostForm_def demo_getBaseURL demo_env_def demo_network_def page_def
      println_def record_event_def sendEmail_def resend_Emails_Send_def
      demo_cycle1_def demo_resolved_def Let_def)
  have 1: "remaining (snd (Run (Suc 0) demo_env demo_options)) = 1"
    by (simp add: demo_Run_1 r)
  from t 1 have 2: "pending_count (snd (Run (Suc 0) demo_env demo_options)) = 1" by simp
  have 3: "remaining (snd (Run 0 demo_env demo_options)) = 2"
    by (simp add: demo_Run_0) (simp add: demo_resolved_def)
  from t i f o r have 4: "remaining (poll_step demo_env demo_config 2 0 demo_cycle1) = 0"
    by simp
  from t i r p 4 have 5: "pending_count (poll_step demo_env demo_config 2 0 demo_cycle1) = 0"
    by simp
  from 1 2 3 i r p 4 5 show ?thesis by simp
qed

section \<open>A failed notification\<close>

text \<open>
  Claim C6, as amended. When the send for a course fails, the course is found and stays
  found at every later point of the session, and the failed send remains the only send
  ever made for it: the transition is not reversed and the send is not retried.
\<close>

theorem failed_notification_keeps_found:
  assumes "Run fuel E opts = (r, st)" and "Run (fuel + n) E opts = (r', st')"
    and "EvNotify i dest subject body (Some err) \<in> set (events st)"
  shows "i < length (courses st) \<and> Found (courses st ! i) \<and>
         i < length (courses st') \<and> Found (courses st' ! i) \<and>
         filter (is_notify_of i) (events st') = [EvNotify i dest subject body (Some err)]"
proof -
  let ?e = "EvNotify i dest subject body (Some err)"
  have ok: "history_ok st"
    using Run_history_ok [of fuel E opts] assms(1) by simp
  have n: "is_notify_of i ?e" by simp
  have found: "i < length (courses st) \<and> Found (courses st ! i)"
    using ok assms(3) n unfolding history_ok_def by blast
  have "length (filter (is_notify_of i) (events st)) \<le> 1"
    using ok unfolding history_ok_def by blast
  then have one: "filter (is_notify_of i) (events st) = [?e]"
    using assms(3) n by (rule filter_single)
  have later: "settled i st st'"
    using Run_settled [of i fuel E opts n] found assms(1,2) by simp
  then have "filter (is_notify_of i) (filter (about i) (events st')) =
             filter (is_notify_of i) (filter (about i) (events st))"
    by (simp add: settled_def)
  then have "filter (is_notify_of i) (events st') = [?e]"
    using one by (simp only: filter_notify_about)
  then show ?thesis using found later by (simp add: settled_def)
qed

theorem failed_notification_keeps_found_witness:
  "Run (Suc 0) demo_env demo_options = (None, demo_cycle1) \<and>
   Run (Suc 0 + 1) demo_env demo_options = (Some None, println LineAllFound demo_cycle2) \<and>
   EvNotify 1 ''me@vt.edu'' ''VT Course Section Open!'' ''OPEN SEAT: Biology (CRN: 333)''
     (Some (ResendError ''rate limited'')) \<in> set (events demo_cycle1) \<and>
   Found (courses demo_cycle1 ! 1) \<and>
   Found (courses (println LineAllFound demo_cycle2) ! 1) \<and>
   filter (is_notify_of 1) (events (println LineAllFound demo_cycle2)) =
     [EvNotify 1 ''me@vt.edu'' ''VT Course Section Open!'' ''OPEN SEAT: Biology (CRN: 333)''
        (Some (ResendError ''rate limited''))]"
proof -
  have e: "EvNotify 1 ''me@vt.edu'' ''VT Course Section Open!'' ''OPEN SEAT: Biology (CRN: 333)''
     (Some (ResendError ''rate limited'')) \<in> set (events demo_cycle1)"
    by (simp add: demo_cycle1_def)
  from failed_notification_keeps_found [OF demo_Run_1 demo_Run_2' e] demo_Run_1 demo_Run_2' e
  show ?thesis by simp
qed

text \<open>
  Claim C6 as stated fails: in the example run the send for course 333 fails, and the
  lines printed are those of a run in which it succeeds, ending with the line that says
  the notification was sent; the value \<^verbatim>\<open>Run\<close> returns is the same as well.
\<close>

theorem failed_notification_not_reported:
  "Run (Suc 0) demo_env demo_options = (None, demo_cycle1) \<and>
   EvNotify 1 ''me@vt.edu'' ''VT Course Section Open!'' ''OPEN SEAT: Biology (CRN: 333)''
     (Some (ResendError ''rate limited'')) \<in> set (events demo_cycle1) \<and>
   drop 3 (printed demo_cycle1) =
     [LineChecking 1 ''222'', LineErrorChecking ''222'' (RequestFailed ''connection refused''),
      LineChecking 1 ''333'', LineSeatAvailable ''Biology'' ''333'',
      LineNotificationSent ''me@vt.edu''] \<and>
   EvNotify 1 ''me@vt.edu'' ''VT Course Section Open!'' ''OPEN SEAT: Biology (CRN: 333)'' None
     \<in> set (events (snd (Run (Suc 0) demo_env_delivering demo_options))) \<and>
   fst (Run (Suc 0) demo_env_delivering demo_options) = fst (Run (Suc 0) demo_env demo_options) \<and>
   printed (snd (Run (Suc 0) demo_env_delivering demo_options)) =
     printed (snd (Run (Suc 0) demo_env demo_options))"
proof -
  have d: "Run (Suc 0) demo_env_delivering demo_options =
    (None, demo_cycle1\<lparr>events := events demo_resolved @
               [EvCheck 0 ''222'' (Inl (RequestFailed ''connection refused'')),
                EvCheck 1 ''333'' (Inr True),
                EvNotify 1 ''me@vt.edu'' ''VT Course Section Open!''
                  ''OPEN SEAT: Biology (CRN: 333)'' None]\<rparr>)"
    by (simp add: Run_def loadConfig_def demo_env_delivering_def demo_env_def demo_network_def
      page_def start_def demo_options_def
      getCourseName_def fetchDocument_def http_PostForm_def DefaultTimetableURL_def
      println_def record_event_def poll_cycle_def poll_step_def checkSectionOpen_def getBaseURL_def
      sendEmail_def resend_Emails_Send_def strings_TrimSpace_def isSpace_def Let_def upt_rec
      demo_cycle1_def demo_resolved_def demo_config_def buildPayload_def)
  have e: "EvNotify 1 ''me@vt.edu'' ''VT Course Section Open!'' ''OPEN SEAT: Biology (CRN: 333)''
     (Some (ResendError ''rate limited'')) \<in> set (events demo_cycle1)"
    and p: "drop 3 (printed demo_cycle1) =
     [LineChecking 1 ''222'', LineErrorChecking ''222'' (RequestFailed ''connection refused''),
      LineChecking 1 ''333'', LineSeatAvailable ''Biology'' ''333'',
      LineNotificationSent ''me@vt.edu'']"
    by (simp_all add: demo_cycle1_def demo_resolved_def)
  from demo_Run_1 d e p show ?thesis by simp
qed

section \<open>Initialisation\<close>

text \<open>
  Claim C7. Once the configuration is loaded, a name is resolved for every configured CRN,
  in order (one post and one recorded resolution each); the tracked courses are exactly
  the successful resolutions, in order and pending; and \<^verbatim>\<open>Run\<close> fails with the error for no
  valid CRNs exactly when no resolution succeeds.
\<close>

theorem initialization_tracks_resolved:
  assumes "loadConfig E (ConfigPath opts) = Inr cfg"
  shows "posts (snd (Run 0 E opts)) =
           map (\<lambda>crn. (BaseURL cfg, buildPayload cfg crn False)) (CRNs cfg) \<and>
         length (events (snd (Run 0 E opts))) = length (CRNs cfg) \<and>
         concat (map resolve_crn (events (snd (Run 0 E opts)))) = CRNs cfg \<and>
         courses (snd (Run 0 E opts)) =
           concat (map resolved_course (events (snd (Run 0 E opts)))) \<and>
         (fst (Run fuel E opts) = Some (Some NoValidCRNs)) =
           (\<forall>e\<in>set (events (snd (Run 0 E opts))). resolved_course e = [])"
proof -
  let ?init = "init_courses E cfg (CRNs cfg) start"
  have init: "posts ?init = map (\<lambda>crn. (BaseURL cfg, buildPayload cfg crn False)) (CRNs cfg)"
    "length (events ?init) = length (CRNs cfg)"
    "concat (map resolve_crn (events ?init)) = CRNs cfg"
    "courses ?init = concat (map resolved_course (events ?init))"
    using init_courses_start [of E cfg "CRNs cfg"] by auto
  have none: "(courses ?init = []) = (\<forall>e\<in>set (events ?init). resolved_course e = [])"
    by (simp add: init(4) concat_empty_iff)
  show ?thesis
  proof (cases "courses ?init = []")
    case True
    have "Run fuel E opts = (Some (Some NoValidCRNs), ?init)"
      "Run 0 E opts = (Some (Some NoValidCRNs), ?init)"
      using assms True by (rule Run_no_courses)+
    then show ?thesis using init none True by simp
  next
    case False
    have 0: "Run 0 E opts = (None, loop_entry E cfg)"
      using assms False by (simp add: Run_polls)
    have "fst (Run fuel E opts) = fst (Run_loop fuel E cfg 1 (loop_entry E cfg))"
      using assms False by (simp add: Run_polls)
    then have "fst (Run fuel E opts) \<noteq> Some (Some NoValidCRNs)"
      using Run_loop_result [of fuel E cfg 1 "loop_entry E cfg"] by auto
    then show ?thesis using 0 init none False by (simp add: loop_entry_fields)
  qed
qed

theorem initialization_tracks_resolved_witness:
  "loadConfig demo_env (ConfigPath demo_options) = Inr demo_config \<and>
   CRNs demo_config = [''111'', ''222'', ''333''] \<and>
   events (snd (Run 0 demo_env demo_options)) =
     [EvResolve ''111'' (Inl (UnexpectedStatus 500 ''500 Internal Server Error'')),
      EvResolve ''222'' (Inr ''Algebra''), EvResolve ''333'' (Inr ''Biology'')] \<and>
   courses (snd (Run 0 demo_env demo_options)) =
     [\<lparr>CRN = ''222'', Name = ''Algebra'', Found = False\<rparr>,
      \<lparr>CRN = ''333'', Name = ''Biology'', Found = False\<rparr>] \<and>
   fst (Run 2 demo_env demo_options) \<noteq> Some (Some NoValidCRNs)"
proof -
  have l: "loadConfig demo_env (ConfigPath demo_options) = Inr demo_config"
    by (simp add: demo_options_def demo_loadConfig)
  have c: "CRNs demo_config = [''111'', ''222'', ''333'']"
    by (simp add: demo_config_def)
  have e: "events (snd (Run 0 demo_env demo_options)) =
     [EvResolve ''111'' (Inl (UnexpectedStatus 500 ''500 Internal Server Error'')),
      EvResolve ''222'' (Inr ''Algebra''), EvResolve ''333'' (Inr ''Biology'')]"
    by (simp add: demo_Run_0) (simp add: demo_resolved_def)
  note t = initialization_tracks_resolved [OF l, of 2]
  from t e have r: "courses (snd (Run 0 demo_env demo_options)) =
     [\<lparr>CRN = ''222'', Name = ''Algebra'', Found = False\<rparr>,
      \<lparr>CRN = ''333'', Name = ''Biology'', Found = False\<rparr>]"
    by simp
  from t e have n: "fst (Run 2 demo_env demo_options) \<noteq> Some (Some NoValidCRNs)"
    by simp
  from l c e r n show ?thesis by simp
qed

section \<open>The injected sender\<close>

text \<open>
  Claim C8 does not hold of the code. In the example run the options carry a test double
  as sender and course 333 is found with a notification address configured, yet the
  double has received nothing: the notification went to the Resend API through the
  package-level \<^verbatim>\<open>sendEmail\<close>. In general \<^verbatim>\<open>Run\<close> never calls the sender of its options, and
  its result does not depend on it.
\<close>

theorem injected_sender_never_called:
  "EmailSender demo_options = Some (MockEmailSender False) \<and>
   Run (Suc 0) demo_env demo_options = (None, demo_cycle1) \<and>
   EvNotify 1 ''me@vt.edu'' ''VT Course Section Open!'' ''OPEN SEAT: Biology (CRN: 333)''
     (Some (ResendError ''rate limited'')) \<in> set (events demo_cycle1) \<and>
   Sent demo_cycle1 = [] \<and>
   mails demo_cycle1 =
     [(''me@vt.edu'', ''VT Course Section Open!'', ''OPEN SEAT: Biology (CRN: 333)'')] \<and>
   Sent (snd (Send demo_env (MockEmailSender False) ''me@vt.edu'' ''VT Course Section Open!''
                ''OPEN SEAT: Biology (CRN: 333)'' demo_resolved)) =
     [(''me@vt.edu'', ''VT Course Section Open!'', ''OPEN SEAT: Biology (CRN: 333)'')] \<and>
   Sent (snd (Run fuel E opts)) = [] \<and>
   Run fuel E (opts\<lparr>EmailSender := s\<rparr>) = Run fuel E opts"
proof -
  have 1: "EmailSender demo_options = Some (MockEmailSender False)"
    by (simp add: demo_options_def)
  have 2: "EvNotify 1 ''me@vt.edu'' ''VT Course Section Open!'' ''OPEN SEAT: Biology (CRN: 333)''
     (Some (ResendError ''rate limited'')) \<in> set (events demo_cycle1)"
    "Sent demo_cycle1 = []"
    "mails demo_cycle1 =
     [(''me@vt.edu'', ''VT Course Section Open!'', ''OPEN SEAT: Biology (CRN: 333)'')]"
    by (simp_all add: demo_cycle1_def)
  have 3: "Sent (snd (Send demo_env (MockEmailSender False) ''me@vt.edu''
                ''VT Course Section Open!'' ''OPEN SEAT: Biology (CRN: 333)'' demo_resolved)) =
     [(''me@vt.edu'', ''VT Course Section Open!'', ''OPEN SEAT: Biology (CRN: 333)'')]"
    by (simp add: demo_resolved_def)
  from 1 demo_Run_1 2 3 Run_Sent [of fuel E opts] Run_ignores_sender [of fuel E s opts]
  show ?thesis by simp
qed

section \<open>Lookups within a cycle\<close>

text \<open>
  Claim C9. In one poll cycle \<^verbatim>\<open>checkSectionOpen\<close> is called exactly once for every course
  that is pending when the cycle starts and not at all for a found course, in the order
  of \<open>courses\<close>: the HTTP posts of the cycle, and the lookups it records, are those of
  the pending indices in ascending order.
\<close>

theorem lookups_once_per_pending_in_order:
  "posts (poll_cycle E cfg a st) =
     posts st @ map (\<lambda>i. (getBaseURL cfg, buildPayload cfg (CRN (courses st ! i)) True))
                    (pending_indices st) \<and>
   concat (map check_of (drop (length (events st)) (events (poll_cycle E cfg a st)))) =
     map (\<lambda>i. (i, CRN (courses st ! i))) (pending_indices st)"
  by (rule poll_cycle_lookups)

theorem lookups_once_per_pending_in_order_witness:
  "pending_indices demo_cycle1 = [0] \<and>
   drop 5 (posts (poll_cycle demo_env demo_config 2 demo_cycle1)) =
     [(DefaultTimetableURL, buildPayload demo_config ''222'' True)] \<and>
   concat (map check_of (drop 6 (events (poll_cycle demo_env demo_config 2 demo_cycle1)))) =
     [(0, ''222'')]"
proof -
  have p: "pending_indices demo_cycle1 = [0]"
    by (simp add: pending_indices_def demo_cycle1_def upt_rec)
  have l: "length (events demo_cycle1) = 6" "length (posts demo_cycle1) = 5"
    "CRN (courses demo_cycle1 ! 0) = ''222''"
    by (simp_all add: demo_cycle1_def demo_resolved_def)
  show ?thesis
    using lookups_once_per_pending_in_order [of demo_env demo_config 2 demo_cycle1]
    by (simp add: p l demo_getBaseURL)
qed

section \<open>The two lookups and the default base URL\<close>

text \<open>
  Claim C10. For a configuration whose \<open>BaseURL\<close> is empty, \<^verbatim>\<open>getCourseName\<close> posts to the
  empty URL and returns an error whatever the network does, while
  \<^verbatim>\<open>checkSectionOpen\<close> posts to the default timetable URL and behaves as it does for the
  configuration with that URL written out: the two lookups disagree on the default.
\<close>

theorem base_url_defaults_disagree:
  assumes "BaseURL c = []"
  shows "getCourseName E c crn st =
           (Inl (RequestFailed ''unsupported protocol scheme''),
            st\<lparr>posts := posts st @ [([], buildPayload c crn False)]\<rparr>) \<and>
         checkSectionOpen E c crn st =
           checkSectionOpen E (c\<lparr>BaseURL := DefaultTimetableURL\<rparr>) crn st \<and>
         snd (checkSectionOpen E c crn st) =
           st\<lparr>posts := posts st @ [(DefaultTimetableURL, buildPayload c crn True)]\<rparr>"
proof -
  have name: "getCourseName E c crn st =
           (Inl (RequestFailed ''unsupported protocol scheme''),
            st\<lparr>posts := posts st @ [([], buildPayload c crn False)]\<rparr>)"
    using assms by (simp add: getCourseName_def fetchDocument_def http_PostForm_def Let_def)
  have url: "getBaseURL (c\<lparr>BaseURL := DefaultTimetableURL\<rparr>) = getBaseURL c"
    using assms by (simp add: getBaseURL_def)
  have pay: "buildPayload (c\<lparr>BaseURL := DefaultTimetableURL\<rparr>) crn True = buildPayload c crn True"
    by (simp add: buildPayload_def)
  have same: "checkSectionOpen E c crn st =
           checkSectionOpen E (c\<lparr>BaseURL := DefaultTimetableURL\<rparr>) crn st"
    unfolding checkSectionOpen_def url pay ..
  have "getBaseURL c = DefaultTimetableURL"
    using assms by (simp add: getBaseURL_def)
  then have st: "snd (checkSectionOpen E c crn st) =
           st\<lparr>posts := posts st @ [(DefaultTimetableURL, buildPayload c crn True)]\<rparr>"
    by (simp add: checkSectionOpen_state)
  from name same st show ?thesis by simp
qed

theorem base_url_defaults_disagree_witness:
  "BaseURL bare_config = [] \<and>
   fst (getCourseName quiet_env bare_config ''222'' start) =
     Inl (RequestFailed ''unsupported protocol scheme'') \<and>
   map fst (posts (snd (getCourseName quiet_env bare_config ''222'' start))) = [[]] \<and>
   fst (checkSectionOpen quiet_env bare_config ''222'' start) = Inr False \<and>
   map fst (posts (snd (checkSectionOpen quiet_env bare_config ''222'' start))) =
     [DefaultTimetableURL]"
proof -
  have b: "BaseURL bare_config = []" by (simp add: bare_config_def)
  have c: "fst (checkSectionOpen quiet_env (bare_config\<lparr>BaseURL := DefaultTimetableURL\<rparr>) ''222'' start) = Inr False"
    by (simp add: checkSectionOpen_def fetchDocument_def http_PostForm_def getBaseURL_def
        DefaultTimetableURL_def quiet_env_def bare_config_def buildPayload_def page_def
        start_def Let_def)
  note t = base_url_defaults_disagree [OF b, of quiet_env "''222''" start]
  have g: "fst (getCourseName quiet_env bare_config ''222'' start) =
             Inl (RequestFailed ''unsupported protocol scheme'') \<and>
           map fst (posts (snd (getCourseName quiet_env bare_config ''222'' start))) = [[]]"
    by (simp add: t [THEN conjunct1] start_fields)
  have o: "fst (checkSectionOpen quiet_env bare_config ''222'' start) = Inr False"
    by (simp only: t [THEN conjunct2, THEN conjunct1] c)
  have p: "map fst (posts (snd (checkSectionOpen quiet_env bare_config ''222'' start))) =
             [DefaultTimetableURL]"
    by (simp add: t [THEN conjunct2, THEN conjunct2] start_fields)
  from b g o p show ?thesis by simp
qed

end
